theory Spec2Isabelle
  imports Complex_Main "HOL-Library.AList"
begin

section \<open>JavaScript values of a request body\<close>

text \<open>
  A parsed JSON body holds null, booleans, numbers, strings, arrays and objects.
  Strings are lists of code units; the model covers the code units below 256, one
  \<open>char\<close> each. A finite number is carried the way \<open>Number.prototype.toString\<close>
  reads it: \<open>JNum neg s n\<close> is the number of sign \<open>neg\<close> whose magnitude is
  \<open>s\<close> times the power \<open>n - k\<close> of ten, where \<open>s\<close> is the shortest significand
  that denotes the number and \<open>k\<close> is the count of its digits; zero has
  \<open>s = 0\<close>. So 12 is \<open>JNum False 12 2\<close>, 1.5 is \<open>JNum False 15 1\<close> and a one
  with 21 zeros is \<open>JNum False 1 22\<close>. A numeral beyond the range of a double
  parses to an infinity, \<open>JInfinity neg\<close>. An object is the list of its own
  properties in \<open>Object.entries\<close> order; a property that is absent reads as
  \<open>undefined\<close>, which is \<open>None\<close> here.
\<close>

datatype jvalue = JNull | JBool bool | JNum bool nat int | JInfinity bool | JStr string
  | JArr "jvalue list" | JObj "(string \<times> jvalue) list"

datatype js_error = TypeError | ValidationError "string list" | DuplicateKey
  | MapKeyError string

text \<open>Truthiness, as \<open>!x\<close> and \<open>if (x)\<close> read it.\<close>

fun truthy :: "jvalue \<Rightarrow> bool" where
  "truthy JNull = False"
| "truthy (JBool b) = b"
| "truthy (JNum neg s n) = (s \<noteq> 0)"
| "truthy (JInfinity neg) = True"
| "truthy (JStr s) = (s \<noteq> [])"
| "truthy (JArr xs) = True"
| "truthy (JObj kvs) = True"

definition js_not :: "jvalue option \<Rightarrow> bool" where
  "js_not v = (case v of None \<Rightarrow> True | Some x \<Rightarrow> \<not> truthy x)"

text \<open>
  White space as \<open>String.prototype.trim\<close> and the class \<open>\s\<close> see it, below 256:
  tab, line feed, vertical tab, form feed, carriage return, space, no-break space.
\<close>

definition is_ws :: "char \<Rightarrow> bool" where
  "is_ws c = (c \<in> set [CHR 0x09, CHR 0x0A, CHR 0x0B, CHR 0x0C, CHR 0x0D, CHR 0x20, CHR 0xA0])"

definition trim :: "string \<Rightarrow> string" where
  "trim s = rev (dropWhile is_ws (rev (dropWhile is_ws s)))"

definition lower_char :: "char \<Rightarrow> char" where
  "lower_char c = (let n = (of_char c :: nat) in
     if (65 \<le> n \<and> n \<le> 90) \<or> (192 \<le> n \<and> n \<le> 222 \<and> n \<noteq> 215)
     then char_of (n + 32) else c)"

definition toLowerCase :: "string \<Rightarrow> string" where
  "toLowerCase s = map lower_char s"

fun nat_digits :: "nat \<Rightarrow> string" where
  "nat_digits n = (if n < 10 then [''0123456789'' ! n]
                   else nat_digits (n div 10) @ [''0123456789'' ! (n mod 10)])"

declare nat_digits.simps [simp del]

text \<open>
  The decimal text of a magnitude, by the rules of \<open>Number::toString\<close>: plain digits
  with zeros behind them or a point among them while the exponent \<open>n\<close> is between
  -5 and 21, and the exponent form otherwise.
\<close>

definition number_text :: "nat \<Rightarrow> int \<Rightarrow> string" where
  "number_text s n =
     (let ds = nat_digits s; k = int (length ds) in
      if s = 0 then ''0''
      else if k \<le> n \<and> n \<le> 21 then ds @ replicate (nat (n - k)) (CHR ''0'')
      else if 0 < n \<and> n \<le> 21 then take (nat n) ds @ ''.'' @ drop (nat n) ds
      else if - 6 < n \<and> n \<le> 0 then ''0.'' @ replicate (nat (- n)) (CHR ''0'') @ ds
      else (let ex = (if n - 1 < 0 then ''-'' else ''+'') @ nat_digits (nat \<bar>n - 1\<bar>)
            in if k = 1 then ds @ ''e'' @ ex
               else take 1 ds @ ''.'' @ drop 1 ds @ ''e'' @ ex))"

fun join_with :: "string \<Rightarrow> string list \<Rightarrow> string" where
  "join_with sep [] = []"
| "join_with sep [x] = x"
| "join_with sep (x # y # ys) = x @ sep @ join_with sep (y # ys)"

fun all_or_error :: "('e + 'a) list \<Rightarrow> 'e + 'a list" where
  "all_or_error [] = Inr []"
| "all_or_error (Inl e # rs) = Inl e"
| "all_or_error (Inr x # rs) =
     (case all_or_error rs of Inl e \<Rightarrow> Inl e | Inr xs \<Rightarrow> Inr (x # xs))"

text \<open>
  The conversion to a string that \<open>value.toString()\<close>, \<open>RegExp.prototype.test\<close> and
  \<open>Array.prototype.join\<close> perform. An array joins its elements with a comma, a null
  element giving the empty string. A parsed object prints as \<open>[object Object]\<close>, unless
  it has an own property \<open>toString\<close>: that property is not a function, and the call
  raises a TypeError.
\<close>

fun ToString :: "jvalue \<Rightarrow> js_error + string" where
  "ToString JNull = Inr ''null''"
| "ToString (JBool b) = Inr (if b then ''true'' else ''false'')"
| "ToString (JNum neg s n) =
     Inr ((if neg \<and> s \<noteq> 0 then ''-'' else []) @ number_text s n)"
| "ToString (JInfinity neg) = Inr ((if neg then ''-'' else []) @ ''Infinity'')"
| "ToString (JStr s) = Inr s"
| "ToString (JArr xs) =
     (case all_or_error (map (\<lambda>x. if x = JNull then Inr [] else ToString x) xs) of
        Inl e \<Rightarrow> Inl e
      | Inr strs \<Rightarrow> Inr (join_with '','' strs))"
| "ToString (JObj kvs) =
     (if ''toString'' \<in> fst ` set kvs then Inl TypeError else Inr ''[object Object]'')"

text \<open>
  The method calls \<open>x.trim()\<close> and \<open>x.toLowerCase()\<close>: only a string has them, on any
  other truthy value the call raises a TypeError.
\<close>

fun js_trim :: "jvalue \<Rightarrow> js_error + string" where
  "js_trim (JStr s) = Inr (trim s)"
| "js_trim v = Inl TypeError"

fun js_toLowerCase :: "jvalue \<Rightarrow> js_error + string" where
  "js_toLowerCase (JStr s) = Inr (toLowerCase s)"
| "js_toLowerCase v = Inl TypeError"

subsection \<open>The e-mail pattern\<close>

text \<open>
  The pattern \<^verbatim>\<open>/^[^\s@]+@[^\s@]+\.[^\s@]+$/\<close> is a sequence of five items, matched
  against the whole string with backtracking.
\<close>

datatype cclass = NotSpaceNorAt | Lit char

datatype item = One cclass | Plus cclass

fun in_class :: "cclass \<Rightarrow> char \<Rightarrow> bool" where
  "in_class NotSpaceNorAt c = (\<not> is_ws c \<and> c \<noteq> CHR ''@'')"
| "in_class (Lit l) c = (c = l)"

fun matches :: "item list \<Rightarrow> string \<Rightarrow> bool" where
  "matches [] s = (s = [])"
| "matches (One c # p) [] = False"
| "matches (One c # p) (x # xs) = (in_class c x \<and> matches p xs)"
| "matches (Plus c # p) [] = False"
| "matches (Plus c # p) (x # xs) =
     (in_class c x \<and> (matches p xs \<or> matches (Plus c # p) xs))"

definition email_pattern :: "item list" where
  "email_pattern = [Plus NotSpaceNorAt, One (Lit (CHR ''@'')), Plus NotSpaceNorAt,
                    One (Lit (CHR ''.'')), Plus NotSpaceNorAt]"

definition email_test :: "jvalue \<Rightarrow> js_error + bool" where
  "email_test v = (case ToString v of Inl e \<Rightarrow> Inl e
                   | Inr s \<Rightarrow> Inr (matches email_pattern s))"

section \<open>Landing pages\<close>

datatype field_type = FText | FEmail | FPhone | FTextarea | FSelect | FCheckbox
  | FRadio | FNumber | FDate | FUrl

record form_field =
  name :: string
  label :: string
  ftype :: field_type
  required :: bool

record include_default_fields =
  inc_firstName :: bool
  inc_lastName :: bool
  inc_email :: bool
  inc_phone :: bool
  inc_company :: bool
  inc_message :: bool

datatype page_status = PageActive | PageInactive

record landing_page =
  page_name :: string
  page_status :: page_status
  formFields :: "form_field list"
  includeDefaultFields :: include_default_fields

section \<open>Leads\<close>

datatype lead_status = New | Contacted | Qualified | Converted | Lost

text \<open>
  \<open>lead_data\<close> is the object the ingestion handler builds; \<open>lead\<close> is the stored
  document, with the defaults of the schema. The extension map keeps insertion order,
  and setting a key that is present replaces its value in place: \<open>AList.update\<close>.
\<close>

record lead_data =
  landingPage :: "string option"
  ipAddress :: "string option"
  userAgent :: "string option"
  dynamicFields :: "(string \<times> jvalue) list"
  firstName :: "string option"
  lastName :: "string option"
  email :: "string option"
  phone :: "string option"
  company :: "string option"
  message :: "string option"

record lead = lead_data +
  status :: lead_status
  source :: string
  createdAt :: nat
  updatedAt :: nat

text \<open>
  \<open>Lead.create\<close>, as models/Lead.js declares it. The path \<open>dynamicFields\<close> has
  the type Map: when the document is built, a key that starts with \<open>$\<close>, contains
  a dot or is one of the reserved names \<open>__proto__\<close>, \<open>constructor\<close> and
  \<open>prototype\<close> is refused with an exception, the first such key in the order of the
  map. Then come the setters \<open>trim\<close> and \<open>lowercase\<close>, the \<open>required\<close>
  paths (a string path fails when it is undefined or empty), the defaults, and the save
  hook that stamps \<open>updatedAt\<close>; one reading of the clock, \<open>now\<close>, stands for
  both time stamps. Nothing is stored when it fails.
\<close>

definition valid_map_key :: "string \<Rightarrow> bool" where
  "valid_map_key k =
     ((case k of [] \<Rightarrow> True | c # cs \<Rightarrow> c \<noteq> CHR ''$'') \<and> CHR ''.'' \<notin> set k
      \<and> k \<notin> set [''__proto__'', ''constructor'', ''prototype''])"

definition missing :: "string option \<Rightarrow> bool" where
  "missing v = (case v of None \<Rightarrow> True | Some s \<Rightarrow> s = [])"

definition Lead_create :: "nat \<Rightarrow> lead_data \<Rightarrow> js_error + lead" where
  "Lead_create now d =
     (case List.find (\<lambda>kv. \<not> valid_map_key (fst kv)) (dynamicFields d) of
        Some kv \<Rightarrow> Inl (MapKeyError (fst kv))
      | None \<Rightarrow>
      let fn = map_option trim (firstName d);
          ln = map_option trim (lastName d);
          em = map_option toLowerCase (email d);
          errs = (if missing fn then [''Please provide first name''] else [])
               @ (if missing ln then [''Please provide last name''] else [])
               @ (if missing em then [''Please provide email''] else [])
               @ (if landingPage d = None then [''Path `landingPage` is required.''] else [])
      in if errs \<noteq> [] then Inl (ValidationError errs)
         else Inr \<lparr>landingPage = landingPage d, ipAddress = ipAddress d,
                   userAgent = userAgent d, dynamicFields = dynamicFields d,
                   firstName = fn, lastName = ln, email = em,
                   phone = map_option trim (phone d),
                   company = map_option trim (company d),
                   message = map_option trim (message d),
                   status = New, source = ''landing_page'',
                   createdAt = now, updatedAt = now\<rparr>)"

section \<open>Lead ingestion: POST /api/leads\<close>

record lead_request =
  landingPageId :: "string option"
  formData :: "(string \<times> jvalue) list"
  ip :: "string option"
  user_agent :: "string option"

text \<open>
  A handler either sends a reply (status code, success flag, message, data), or the
  400 reply that carries the error list of the request validators, or throws; what is
  thrown goes to the error middleware.
\<close>

datatype 'a reply = Reply nat bool string "'a option" | Invalid "string list"
  | Thrown js_error

datatype stop = Bad string | Throws js_error

definition and_then :: "stop + 'a \<Rightarrow> ('a \<Rightarrow> stop + 'b) \<Rightarrow> stop + 'b" where
  "and_then r f = (case r of Inl e \<Rightarrow> Inl e | Inr x \<Rightarrow> f x)"

definition findById :: "(string \<times> 'a) list \<Rightarrow> string option \<Rightarrow> 'a option" where
  "findById coll i = (case i of None \<Rightarrow> None | Some k \<Rightarrow> map_of coll k)"

text \<open>The test \<open>!v || v.trim().length < 2\<close> followed by the assignment of \<open>v.trim()\<close>.\<close>

definition name_field :: "string \<Rightarrow> jvalue option \<Rightarrow> stop + string" where
  "name_field msg v =
     (case v of None \<Rightarrow> Inl (Bad msg)
      | Some x \<Rightarrow>
          if \<not> truthy x then Inl (Bad msg)
          else (case js_trim x of Inl e \<Rightarrow> Inl (Throws e)
                | Inr s \<Rightarrow> if length s < 2 then Inl (Bad msg) else Inr s))"

text \<open>The test \<open>!v || !pattern.test(v)\<close> followed by \<open>v.toLowerCase().trim()\<close>.\<close>

definition email_field :: "jvalue option \<Rightarrow> stop + string" where
  "email_field v =
     (case v of None \<Rightarrow> Inl (Bad ''Valid email is required'')
      | Some x \<Rightarrow>
          if \<not> truthy x then Inl (Bad ''Valid email is required'')
          else (case email_test x of Inl e \<Rightarrow> Inl (Throws e)
                | Inr ok \<Rightarrow>
                    if \<not> ok then Inl (Bad ''Valid email is required'')
                    else (case js_toLowerCase x of Inl e \<Rightarrow> Inl (Throws e)
                          | Inr s \<Rightarrow> Inr (trim s))))"

text \<open>The guard \<open>if (v)\<close> followed by the assignment of \<open>v.trim()\<close>.\<close>

definition optional_field :: "jvalue option \<Rightarrow> stop + string option" where
  "optional_field v =
     (case v of None \<Rightarrow> Inr None
      | Some x \<Rightarrow>
          if \<not> truthy x then Inr None
          else (case js_trim x of Inl e \<Rightarrow> Inl (Throws e) | Inr s \<Rightarrow> Inr (Some s)))"

text \<open>The six blocks of the handler that fill the fixed attributes, in their order.\<close>

definition set_firstName ::
  "landing_page \<Rightarrow> (string \<times> jvalue) list \<Rightarrow> lead_data \<Rightarrow> stop + lead_data" where
  "set_firstName lp fd d =
     (if inc_firstName (includeDefaultFields lp)
      then and_then
             (name_field ''First name is required and must be at least 2 characters''
                (map_of fd ''firstName''))
             (\<lambda>s. Inr (d\<lparr>firstName := Some s\<rparr>))
      else Inr d)"

definition set_lastName ::
  "landing_page \<Rightarrow> (string \<times> jvalue) list \<Rightarrow> lead_data \<Rightarrow> stop + lead_data" where
  "set_lastName lp fd d =
     (if inc_lastName (includeDefaultFields lp)
      then and_then
             (name_field ''Last name is required and must be at least 2 characters''
                (map_of fd ''lastName''))
             (\<lambda>s. Inr (d\<lparr>lastName := Some s\<rparr>))
      else Inr d)"

definition set_email ::
  "landing_page \<Rightarrow> (string \<times> jvalue) list \<Rightarrow> lead_data \<Rightarrow> stop + lead_data" where
  "set_email lp fd d =
     (if inc_email (includeDefaultFields lp)
      then and_then (email_field (map_of fd ''email''))
             (\<lambda>s. Inr (d\<lparr>email := Some s\<rparr>))
      else Inr d)"

definition set_phone ::
  "landing_page \<Rightarrow> (string \<times> jvalue) list \<Rightarrow> lead_data \<Rightarrow> stop + lead_data" where
  "set_phone lp fd d =
     and_then (optional_field (map_of fd ''phone''))
       (\<lambda>p. Inr (case p of None \<Rightarrow> d | Some s \<Rightarrow> d\<lparr>phone := Some s\<rparr>))"

definition set_company ::
  "landing_page \<Rightarrow> (string \<times> jvalue) list \<Rightarrow> lead_data \<Rightarrow> stop + lead_data" where
  "set_company lp fd d =
     (if inc_company (includeDefaultFields lp)
      then and_then (optional_field (map_of fd ''company''))
             (\<lambda>p. Inr (case p of None \<Rightarrow> d | Some s \<Rightarrow> d\<lparr>company := Some s\<rparr>))
      else Inr d)"

definition set_message ::
  "landing_page \<Rightarrow> (string \<times> jvalue) list \<Rightarrow> lead_data \<Rightarrow> stop + lead_data" where
  "set_message lp fd d =
     (if inc_message (includeDefaultFields lp)
      then and_then (optional_field (map_of fd ''message''))
             (\<lambda>p. Inr (case p of None \<Rightarrow> d | Some s \<Rightarrow> d\<lparr>message := Some s\<rparr>))
      else Inr d)"

definition process_default_fields ::
  "landing_page \<Rightarrow> (string \<times> jvalue) list \<Rightarrow> lead_data \<Rightarrow> stop + lead_data" where
  "process_default_fields lp fd d0 =
     and_then (set_firstName lp fd d0) (\<lambda>d1.
     and_then (set_lastName lp fd d1) (\<lambda>d2.
     and_then (set_email lp fd d2) (\<lambda>d3.
     and_then (set_phone lp fd d3) (\<lambda>d4.
     and_then (set_company lp fd d4) (\<lambda>d5.
     set_message lp fd d5)))))"

definition standardFields :: "string list" where
  "standardFields = [''firstName'', ''lastName'', ''email'', ''phone'', ''landingPageId'']"

text \<open>
  The loop over \<open>Object.entries(formData)\<close>. Its first test skips an entry whose key
  is a standard field or whose value is falsy or blank; the test of a required
  configured field comes after it, on the entries that were not skipped.
\<close>

fun dynamic_loop ::
  "form_field list \<Rightarrow> (string \<times> jvalue) list \<Rightarrow> (string \<times> jvalue) list
     \<Rightarrow> stop + (string \<times> jvalue) list" where
  "dynamic_loop ffs [] dyn = Inr dyn"
| "dynamic_loop ffs ((fieldName, fieldValue) # rest) dyn =
     (if fieldName \<in> set standardFields \<or> \<not> truthy fieldValue
      then dynamic_loop ffs rest dyn
      else (case ToString fieldValue of
              Inl e \<Rightarrow> Inl (Throws e)
            | Inr str \<Rightarrow>
                if trim str = [] then dynamic_loop ffs rest dyn
                else (case List.find (\<lambda>field. name field = fieldName) ffs of
                        None \<Rightarrow>
                          dynamic_loop ffs rest (AList.update fieldName (JStr (trim str)) dyn)
                      | Some configuredField \<Rightarrow>
                          if required configuredField
                             \<and> (\<not> truthy fieldValue \<or> trim str = [])
                          then Inl (Bad (label configuredField @ '' is required''))
                          else dynamic_loop ffs rest
                                 (AList.update fieldName (JStr (trim str)) dyn))))"

text \<open>The object \<open>leadData\<close> as the handler prepares it, before any field is read.\<close>

definition leadData0 :: "lead_request \<Rightarrow> lead_data" where
  "leadData0 req =
     \<lparr>landingPage = landingPageId req, ipAddress = ip req,
      userAgent = user_agent req, dynamicFields = [],
      firstName = None, lastName = None, email = None,
      phone = None, company = None, message = None\<rparr>"

text \<open>The body of the handler between the look-up of the page and \<open>Lead.create\<close>.\<close>

definition fill_leadData :: "landing_page \<Rightarrow> lead_request \<Rightarrow> stop + lead_data" where
  "fill_leadData lp req =
     and_then (process_default_fields lp (formData req) (leadData0 req)) (\<lambda>d.
     and_then (dynamic_loop (formFields lp) (formData req) (dynamicFields d)) (\<lambda>dyn.
     Inr (d\<lparr>dynamicFields := dyn\<rparr>)))"

definition post_leads ::
  "(string \<times> landing_page) list \<Rightarrow> lead list \<Rightarrow> nat \<Rightarrow> lead_request
     \<Rightarrow> lead reply \<times> lead list" where
  "post_leads pages leads now req =
     (case findById pages (landingPageId req) of
        None \<Rightarrow> (Reply 400 False ''Invalid landing page'' None, leads)
      | Some lp \<Rightarrow>
          if page_status lp \<noteq> PageActive
          then (Reply 400 False ''Invalid landing page'' None, leads)
          else
            (case fill_leadData lp req of
               Inl (Bad msg) \<Rightarrow> (Reply 400 False msg None, leads)
             | Inl (Throws e) \<Rightarrow> (Thrown e, leads)
             | Inr leadData \<Rightarrow>
                 (case Lead_create now leadData of
                    Inl e \<Rightarrow> (Thrown e, leads)
                  | Inr doc \<Rightarrow>
                      (Reply 201 True ''Lead created successfully'' (Some doc),
                       leads @ [doc]))))"

section \<open>The dry run: POST /api/landing-pages/:id/test-form\<close>








section \<open>The view allFormData of a lead\<close>

text \<open>
  The getter starts from an object with the six fixed keys, an unset attribute being
  \<open>undefined\<close> (\<open>None\<close>), and assigns every entry of the extension map onto it. An
  assignment to the key \<open>__proto__\<close> of a plain object adds no property.
\<close>

definition fixed_data :: "'a lead_data_scheme \<Rightarrow> (string \<times> jvalue option) list" where
  "fixed_data l =
     [(''firstName'', map_option JStr (firstName l)),
      (''lastName'', map_option JStr (lastName l)),
      (''email'', map_option JStr (email l)),
      (''phone'', map_option JStr (phone l)),
      (''company'', map_option JStr (company l)),
      (''message'', map_option JStr (message l))]"

definition assign :: "string \<times> jvalue \<Rightarrow> (string \<times> jvalue option) list
    \<Rightarrow> (string \<times> jvalue option) list" where
  "assign kv data = (if fst kv = ''__proto__'' then data
                     else AList.update (fst kv) (Some (snd kv)) data)"

definition allFormData :: "'a lead_data_scheme \<Rightarrow> (string \<times> jvalue option) list" where
  "allFormData l = fold assign (dynamicFields l) (fixed_data l)"

section \<open>Access grants: POST /api/admin/grant-access, PUT /api/admin/revoke-access/:id\<close>

text \<open>
  Both handlers run behind the middleware that admits a super admin only. The store
  holds the users, the landing pages and the access records; \<open>validation_errors\<close>
  is what the validators of the route found in the request, and \<open>granter\<close> is the
  identifier of the user who sends it.
\<close>

datatype role = SuperAdmin | SubAdmin

datatype user_status = Pending | Approved | Rejected

record user =
  user_id :: string
  user_name :: string
  user_email :: string
  user_password :: string
  role :: role
  user_status :: user_status
  companyName :: string

datatype access_status = Active | Inactive | Revoked

record admin_access =
  aa_id :: nat
  subAdmin :: string
  aa_landingPage :: string
  grantedBy :: string
  aa_status :: access_status
  grantedAt :: nat
  revokedAt :: "nat option"
  revokedBy :: "string option"

record admin_db =
  db_users :: "user list"
  db_pages :: "(string \<times> landing_page) list"
  db_accesses :: "admin_access list"

definition same_pair :: "string \<Rightarrow> string \<Rightarrow> admin_access \<Rightarrow> bool" where
  "same_pair s p a = (subAdmin a = s \<and> aa_landingPage a = p)"

text \<open>
  \<open>AdminAccess.create\<close>: the new document gets an identifier that no document of the
  collection has, the defaults \<open>active\<close> and the current time, and the unique index on
  (subAdmin, landingPage) refuses a second document for a pair.
\<close>

definition new_id :: "admin_access list \<Rightarrow> nat" where
  "new_id accs = Suc (fold max (map aa_id accs) 0)"

definition AdminAccess_create ::
  "admin_access list \<Rightarrow> nat \<Rightarrow> string \<Rightarrow> string \<Rightarrow> string
     \<Rightarrow> js_error + admin_access \<times> admin_access list" where
  "AdminAccess_create accs now s p g =
     (if list_ex (same_pair s p) accs then Inl DuplicateKey
      else (let a = \<lparr>aa_id = new_id accs, subAdmin = s, aa_landingPage = p,
                      grantedBy = g, aa_status = Active, grantedAt = now,
                      revokedAt = None, revokedBy = None\<rparr>
            in Inr (a, accs @ [a])))"

text \<open>\<open>doc.save()\<close> writes the document back in the place of the one with its identifier.\<close>

definition save :: "admin_access \<Rightarrow> admin_access list \<Rightarrow> admin_access list" where
  "save a accs = map (\<lambda>x. if aa_id x = aa_id a then a else x) accs"

record grant_request =
  validation_errors :: "string list"
  subAdminId :: string
  grant_landingPageId :: string
  granter :: string

definition grant_access ::
  "admin_db \<Rightarrow> nat \<Rightarrow> grant_request \<Rightarrow> admin_access reply \<times> admin_db" where
  "grant_access db now req =
     (if validation_errors req \<noteq> [] then (Invalid (validation_errors req), db)
      else
        (case List.find (\<lambda>u. user_id u = subAdminId req) (db_users db) of
           None \<Rightarrow> (Reply 400 False ''Invalid sub admin or not approved'' None, db)
         | Some sa \<Rightarrow>
             if role sa \<noteq> SubAdmin \<or> user_status sa \<noteq> Approved
             then (Reply 400 False ''Invalid sub admin or not approved'' None, db)
             else
               (case map_of (db_pages db) (grant_landingPageId req) of
                  None \<Rightarrow> (Reply 400 False ''Landing page not found'' None, db)
                | Some lp \<Rightarrow>
                    (case List.find (same_pair (subAdminId req) (grant_landingPageId req))
                            (db_accesses db) of
                       Some existingAccess \<Rightarrow>
                         if aa_status existingAccess = Active
                         then (Reply 400 False ''Access already granted'' None, db)
                         else
                           (let a = existingAccess\<lparr>aa_status := Active, revokedAt := None,
                                                    revokedBy := None\<rparr>
                            in (Reply 200 True ''Access reactivated successfully'' (Some a),
                                db\<lparr>db_accesses := save a (db_accesses db)\<rparr>))
                     | None \<Rightarrow>
                         (case AdminAccess_create (db_accesses db) now (subAdminId req)
                                 (grant_landingPageId req) (granter req) of
                            Inl e \<Rightarrow> (Thrown e, db)
                          | Inr (adminAccess, accs) \<Rightarrow>
                              (Reply 201 True ''Access granted successfully'' (Some adminAccess),
                               db\<lparr>db_accesses := accs\<rparr>))))))"

definition revoke_access ::
  "admin_db \<Rightarrow> nat \<Rightarrow> string \<Rightarrow> nat \<Rightarrow> admin_access reply \<times> admin_db" where
  "revoke_access db now me i =
     (case List.find (\<lambda>a. aa_id a = i) (db_accesses db) of
        None \<Rightarrow> (Reply 404 False ''Access record not found'' None, db)
      | Some adminAccess \<Rightarrow>
          if aa_status adminAccess = Revoked
          then (Reply 400 False ''Access is already revoked'' None, db)
          else
            (let a = adminAccess\<lparr>aa_status := Revoked, revokedAt := Some now,
                                 revokedBy := Some me\<rparr>
             in (Reply 200 True ''Access revoked successfully'' (Some a),
                 db\<lparr>db_accesses := save a (db_accesses db)\<rparr>)))"

text \<open>The uniqueness that the index on (subAdmin, landingPage) stands for.\<close>

definition unique_pairs :: "admin_access list \<Rightarrow> bool" where
  "unique_pairs accs = distinct (map (\<lambda>a. (subAdmin a, aa_landingPage a)) accs)"

definition unique_ids :: "admin_access list \<Rightarrow> bool" where
  "unique_ids accs = distinct (map aa_id accs)"

definition pair_count :: "string \<Rightarrow> string \<Rightarrow> admin_access list \<Rightarrow> nat" where
  "pair_count s p accs = length (filter (same_pair s p) accs)"

section \<open>The lead list: GET /api/leads\<close>

text \<open>
  The handler runs behind the middleware that authenticates the user; \<open>req_role\<close>
  and \<open>req_user\<close> are the role and the identifier of that user. The model holds
  the query object the handler builds. Running it is the work of the storage engine:
  \<open>count_docs\<close> stands for \<open>Lead.countDocuments\<close>, \<open>fetch\<close> for the sorted
  \<open>Lead.find\<close> with its skip and limit. The numbers are the integers that
  \<open>parseInt\<close> returns, \<open>None\<close> when it returns NaN.
\<close>

datatype page_filter = In "string list" | Eq string

record lead_query =
  q_landingPage :: "page_filter option"
  q_status :: "string option"
  q_createdAt :: "(string option \<times> string option) option"
  q_or :: "string option"

record list_request =
  req_role :: role
  req_user :: string
  p_landingPage :: "string option"
  p_status :: "string option"
  p_startDate :: "string option"
  p_endDate :: "string option"
  p_search :: "string option"
  p_page :: "int option"
  p_limit :: "int option"

record pagination =
  "next" :: "(int \<times> int) option"
  prev :: "(int \<times> int) option"

record list_body =
  count :: nat
  pagination :: "pagination option"
  total :: "nat option"
  data :: "lead list"

datatype list_reply = Sent nat bool list_body | Failed js_error

definition given :: "string option \<Rightarrow> bool" where
  "given v = (case v of None \<Rightarrow> False | Some s \<Rightarrow> s \<noteq> [])"

definition or_default :: "int option \<Rightarrow> int \<Rightarrow> int" where
  "or_default v d = (case v of None \<Rightarrow> d | Some n \<Rightarrow> if n = 0 then d else n)"

definition build_query :: "page_filter option \<Rightarrow> list_request \<Rightarrow> lead_query" where
  "build_query scope req =
     \<lparr>q_landingPage = (if given (p_landingPage req) then Some (Eq (the (p_landingPage req)))
                        else scope),
      q_status = (if given (p_status req) then p_status req else None),
      q_createdAt = (if given (p_startDate req) \<or> given (p_endDate req)
                     then Some (if given (p_startDate req) then p_startDate req else None,
                                if given (p_endDate req) then p_endDate req else None)
                     else None),
      q_or = (if given (p_search req) then p_search req else None)\<rparr>"

definition build_pagination :: "int \<Rightarrow> int \<Rightarrow> int \<Rightarrow> pagination" where
  "build_pagination page limit total_n =
     (let startIndex = (page - 1) * limit;
          endIndex = startIndex + limit
      in \<lparr>next = (if endIndex < total_n then Some (page + 1, limit) else None),
          prev = (if startIndex > 0 then Some (page - 1, limit) else None)\<rparr>)"

definition run_query ::
  "(lead_query \<Rightarrow> nat) \<Rightarrow> (lead_query \<Rightarrow> int \<Rightarrow> int \<Rightarrow> js_error + lead list)
     \<Rightarrow> lead_query \<Rightarrow> list_request \<Rightarrow> list_reply" where
  "run_query count_docs fetch q req =
     (let page = or_default (p_page req) 1;
          limit = or_default (p_limit req) 10;
          startIndex = (page - 1) * limit;
          total_n = count_docs q
      in case fetch q startIndex limit of
           Inl e \<Rightarrow> Failed e
         | Inr leads \<Rightarrow>
             Sent 200 True
               \<lparr>count = length leads,
                pagination = Some (build_pagination page limit (int total_n)),
                total = Some total_n, data = leads\<rparr>)"

definition get_leads ::
  "(lead_query \<Rightarrow> nat) \<Rightarrow> (lead_query \<Rightarrow> int \<Rightarrow> int \<Rightarrow> js_error + lead list)
     \<Rightarrow> admin_access list \<Rightarrow> list_request \<Rightarrow> list_reply" where
  "get_leads count_docs fetch accs req =
     (if req_role req = SubAdmin
      then (let accessRecords =
                  filter (\<lambda>a. subAdmin a = req_user req \<and> aa_status a = Active) accs;
                landingPageIds = map aa_landingPage accessRecords
            in if length landingPageIds = 0
               then Sent 200 True \<lparr>count = 0, pagination = None, total = None, data = []\<rparr>
               else run_query count_docs fetch
                      (build_query (Some (In landingPageIds)) req) req)
      else run_query count_docs fetch (build_query None req) req)"

section \<open>Login: POST /api/auth/login\<close>

text \<open>
  \<open>matchPassword\<close> (the hashing primitive) and \<open>getSignedJwtToken\<close> (the token
  primitive) are parameters; the request carries the error list of its validators and
  the e-mail as they normalised it.
\<close>

record login_request =
  login_errors :: "string list"
  login_email :: string
  login_password :: string

record user_view =
  view_id :: string
  view_name :: string
  view_email :: string
  view_role :: role
  view_status :: user_status
  view_companyName :: string

definition login ::
  "(user \<Rightarrow> string \<Rightarrow> bool) \<Rightarrow> (user \<Rightarrow> string) \<Rightarrow> user list \<Rightarrow> login_request
     \<Rightarrow> (string \<times> user_view) reply" where
  "login matchPassword getSignedJwtToken us req =
     (if login_errors req \<noteq> [] then Invalid (login_errors req)
      else
        (case List.find (\<lambda>u. user_email u = login_email req) us of
           None \<Rightarrow> Reply 401 False ''Invalid credentials'' None
         | Some u \<Rightarrow>
             if \<not> matchPassword u (login_password req)
             then Reply 401 False ''Invalid credentials'' None
             else if role u = SubAdmin \<and> user_status u \<noteq> Approved
             then Reply 403 False ''Your account is pending approval or has been rejected'' None
             else Reply 200 True ''Login successful''
                    (Some (getSignedJwtToken u,
                           \<lparr>view_id = user_id u, view_name = user_name u,
                            view_email = user_email u, view_role = role u,
                            view_status = user_status u,
                            view_companyName = companyName u\<rparr>))))"

section \<open>Example inputs\<close>

text \<open>
  The landing page of the specification's third scenario: the three default fields
  enabled, and one declared field \<open>budget\<close>, labelled Budget and required. The
  request leaves \<open>budget\<close> out.
\<close>

definition budget_page :: landing_page where
  "budget_page = \<lparr>page_name = ''X'', page_status = PageActive,
     formFields = [\<lparr>name = ''budget'', label = ''Budget'', ftype = FSelect,
                    required = True\<rparr>],
     includeDefaultFields = \<lparr>inc_firstName = True, inc_lastName = True, inc_email = True,
        inc_phone = False, inc_company = False, inc_message = False\<rparr>\<rparr>"

definition budget_request :: lead_request where
  "budget_request = \<lparr>landingPageId = Some ''p1'',
     formData = [(''firstName'', JStr ''Jo''), (''lastName'', JStr ''Do''),
                 (''email'', JStr ''j@d.com'')],
     ip = Some ''10.0.0.1'', user_agent = None\<rparr>"

definition budget_lead :: lead where
  "budget_lead = \<lparr>landingPage = Some ''p1'', ipAddress = Some ''10.0.0.1'',
      userAgent = None, dynamicFields = [], firstName = Some ''Jo'',
      lastName = Some ''Do'', email = Some ''j@d.com'', phone = None,
      company = None, message = None, status = New,
      source = ''landing_page'', createdAt = 7, updatedAt = 7\<rparr>"

text \<open>
  Requests to the same page, which has the phone, company and message fields switched
  off: one carries a phone number, one a multi-select value, one a company.
\<close>

definition phone_request :: lead_request where
  "phone_request = budget_request\<lparr>formData := formData budget_request
      @ [(''phone'', JStr '' 12345 '')]\<rparr>"

definition phone_lead :: lead where
  "phone_lead = budget_lead\<lparr>phone := Some ''12345''\<rparr>"

definition skills_request :: lead_request where
  "skills_request = budget_request\<lparr>formData := formData budget_request
      @ [(''technologies'', JArr [JStr ''react'', JStr ''node''])]\<rparr>"

definition skills_lead :: lead where
  "skills_lead = budget_lead\<lparr>dynamicFields := [(''technologies'', JStr ''react,node'')]\<rparr>"

text \<open>A page with the company and message fields switched on, and a request to it.\<close>

definition company_page :: landing_page where
  "company_page = \<lparr>page_name = ''Y'', page_status = PageActive, formFields = [],
     includeDefaultFields = \<lparr>inc_firstName = True, inc_lastName = True, inc_email = True,
        inc_phone = False, inc_company = True, inc_message = True\<rparr>\<rparr>"

definition company_request :: lead_request where
  "company_request = \<lparr>landingPageId = Some ''p2'',
     formData = [(''firstName'', JStr ''Jo''), (''lastName'', JStr ''Do''),
                 (''email'', JStr ''j@d.com''), (''company'', JStr '' Acme ''),
                 (''message'', JStr ''call me'')],
     ip = None, user_agent = Some ''curl''\<rparr>"

definition company_lead :: lead where
  "company_lead = \<lparr>landingPage = Some ''p2'', ipAddress = None,
      userAgent = Some ''curl'',
      dynamicFields = [(''company'', JStr ''Acme''), (''message'', JStr ''call me'')],
      firstName = Some ''Jo'', lastName = Some ''Do'', email = Some ''j@d.com'',
      phone = None, company = Some ''Acme'', message = Some ''call me'', status = New,
      source = ''landing_page'', createdAt = 7, updatedAt = 7\<rparr>"

text \<open>
  A lead whose company was stored twice by ingestion and whose fixed attribute was
  changed afterwards.
\<close>

definition collide_lead :: lead where
  "collide_lead = company_lead\<lparr>company := Some ''Beta''\<rparr>"


text \<open>
  A store with one approved sub admin, one page and no access record; the request that
  grants the sub admin access to the page, and the records and stores that follow from
  granting, revoking and granting again.
\<close>

definition grant_db :: admin_db where
  "grant_db = \<lparr>db_users = [\<lparr>user_id = ''u1'', user_name = ''Sam'',
       user_email = ''sam@d.com'', user_password = ''hash'', role = SubAdmin,
       user_status = Approved, companyName = ''Acme''\<rparr>],
     db_pages = [(''p1'', budget_page)], db_accesses = []\<rparr>"

definition grant_req :: grant_request where
  "grant_req = \<lparr>validation_errors = [], subAdminId = ''u1'',
     grant_landingPageId = ''p1'', granter = ''root''\<rparr>"

definition access1 :: admin_access where
  "access1 = \<lparr>aa_id = 1, subAdmin = ''u1'', aa_landingPage = ''p1'', grantedBy = ''root'',
     aa_status = Active, grantedAt = 5, revokedAt = None, revokedBy = None\<rparr>"

definition access1_revoked :: admin_access where
  "access1_revoked = access1\<lparr>aa_status := Revoked, revokedAt := Some 7,
     revokedBy := Some ''root''\<rparr>"

definition db_granted :: admin_db where
  "db_granted = grant_db\<lparr>db_accesses := [access1]\<rparr>"

definition db_revoked :: admin_db where
  "db_revoked = grant_db\<lparr>db_accesses := [access1_revoked]\<rparr>"

text \<open>
  A request for the lead list by the sub admin, with every filter set, and stand-ins
  for the storage engine; a store with a second sub admin whose account is pending.
\<close>

definition list_req :: list_request where
  "list_req = \<lparr>req_role = SubAdmin, req_user = ''u1'', p_landingPage = Some ''p1'',
     p_status = Some ''new'', p_startDate = Some ''2024-01-01'', p_endDate = None,
     p_search = Some ''jo'', p_page = Some 3, p_limit = Some 10\<rparr>"

definition count25 :: "lead_query \<Rightarrow> nat" where
  "count25 q = 25"

definition fetch_one :: "lead_query \<Rightarrow> int \<Rightarrow> int \<Rightarrow> js_error + lead list" where
  "fetch_one q skip limit = Inr [budget_lead]"

definition pending_user :: user where
  "pending_user = \<lparr>user_id = ''u2'', user_name = ''Pat'', user_email = ''pat@d.com'',
     user_password = ''hash of secret1'', role = SubAdmin, user_status = Pending,
     companyName = ''Beta''\<rparr>"

definition check_password :: "user \<Rightarrow> string \<Rightarrow> bool" where
  "check_password u pw = (user_password u = ''hash of '' @ pw)"

definition sign_token :: "user \<Rightarrow> string" where
  "sign_token u = ''token for '' @ user_id u"



section \<open>Facts about trimming and the e-mail pattern\<close>

lemma trim_Nil [simp]: "trim [] = []"
  by (simp add: trim_def)

lemma trim_prefix: "\<exists>w. dropWhile is_ws s = trim s @ w"
proof -
  let ?t = "dropWhile is_ws s"
  have "trim s @ rev (takeWhile is_ws (rev ?t))
          = rev (takeWhile is_ws (rev ?t) @ dropWhile is_ws (rev ?t))"
    unfolding trim_def by (rule rev_append [symmetric])
  also have "\<dots> = ?t" by simp
  finally show ?thesis by metis
qed

lemma trim_hd: "trim s \<noteq> [] \<Longrightarrow> \<not> is_ws (hd (trim s))"
proof -
  assume ne: "trim s \<noteq> []"
  obtain w where w: "dropWhile is_ws s = trim s @ w" using trim_prefix by blast
  with ne have "dropWhile is_ws s \<noteq> []" by simp
  then have "\<not> is_ws (hd (dropWhile is_ws s))" by (rule hd_dropWhile)
  with w ne show ?thesis by simp
qed

lemma trim_idem: "trim (trim s) = trim s"
proof -
  have a: "dropWhile is_ws (trim s) = trim s"
    using trim_hd [of s] by (cases "trim s = []") (auto simp: dropWhile_eq_self_iff)
  have b: "dropWhile is_ws (rev (trim s)) = rev (trim s)"
    by (simp add: trim_def)
  show ?thesis
    unfolding trim_def [of "trim s"] a b by simp
qed





section \<open>Lead ingestion\<close>


lemma and_then_Inr: "and_then r f = Inr y \<longleftrightarrow> (\<exists>x. r = Inr x \<and> f x = Inr y)"
  by (cases r) (simp_all add: and_then_def)

lemma process_default_fields_Inr:
  assumes "process_default_fields lp fd d0 = Inr d"
  shows "\<exists>d1 d2 d3 d4 d5. set_firstName lp fd d0 = Inr d1 \<and> set_lastName lp fd d1 = Inr d2
     \<and> set_email lp fd d2 = Inr d3 \<and> set_phone lp fd d3 = Inr d4
     \<and> set_company lp fd d4 = Inr d5 \<and> set_message lp fd d5 = Inr d"
  using assms unfolding process_default_fields_def and_then_Inr by blast

text \<open>What each block of the handler leaves alone.\<close>

lemma set_firstName_keeps:
  "set_firstName lp fd d = Inr d' \<Longrightarrow>
     dynamicFields d' = dynamicFields d \<and> landingPage d' = landingPage d
     \<and> lastName d' = lastName d \<and> email d' = email d \<and> phone d' = phone d
     \<and> company d' = company d \<and> message d' = message d"
  by (auto simp: set_firstName_def and_then_Inr split: if_splits)

lemma set_lastName_keeps:
  "set_lastName lp fd d = Inr d' \<Longrightarrow>
     dynamicFields d' = dynamicFields d \<and> landingPage d' = landingPage d
     \<and> firstName d' = firstName d \<and> email d' = email d \<and> phone d' = phone d
     \<and> company d' = company d \<and> message d' = message d"
  by (auto simp: set_lastName_def and_then_Inr split: if_splits)

lemma set_email_keeps:
  "set_email lp fd d = Inr d' \<Longrightarrow>
     dynamicFields d' = dynamicFields d \<and> landingPage d' = landingPage d
     \<and> firstName d' = firstName d \<and> lastName d' = lastName d \<and> phone d' = phone d
     \<and> company d' = company d \<and> message d' = message d"
  by (auto simp: set_email_def and_then_Inr split: if_splits)

lemma set_phone_keeps:
  "set_phone lp fd d = Inr d' \<Longrightarrow>
     dynamicFields d' = dynamicFields d \<and> landingPage d' = landingPage d
     \<and> firstName d' = firstName d \<and> lastName d' = lastName d \<and> email d' = email d
     \<and> company d' = company d \<and> message d' = message d"
  by (auto simp: set_phone_def and_then_Inr split: if_splits option.splits)

lemma set_company_keeps:
  "set_company lp fd d = Inr d' \<Longrightarrow>
     dynamicFields d' = dynamicFields d \<and> landingPage d' = landingPage d
     \<and> firstName d' = firstName d \<and> lastName d' = lastName d \<and> email d' = email d
     \<and> phone d' = phone d \<and> message d' = message d"
  by (auto simp: set_company_def and_then_Inr split: if_splits option.splits)

lemma set_message_keeps:
  "set_message lp fd d = Inr d' \<Longrightarrow>
     dynamicFields d' = dynamicFields d \<and> landingPage d' = landingPage d
     \<and> firstName d' = firstName d \<and> lastName d' = lastName d \<and> email d' = email d
     \<and> phone d' = phone d \<and> company d' = company d"
  by (auto simp: set_message_def and_then_Inr split: if_splits option.splits)


lemma optional_field_None: "optional_field v = Inr None \<longleftrightarrow> js_not v"
proof (cases v)
  case None
  then show ?thesis by (simp add: optional_field_def js_not_def)
next
  case (Some x)
  then show ?thesis
    by (cases x) (auto simp: optional_field_def js_not_def split: if_splits)
qed

lemma optional_field_Some:
  "optional_field v = Inr (Some t) \<longleftrightarrow> (\<exists>s. v = Some (JStr s) \<and> s \<noteq> [] \<and> t = trim s)"
proof (cases v)
  case None
  then show ?thesis by (simp add: optional_field_def)
next
  case (Some x)
  then show ?thesis
    by (cases x) (auto simp: optional_field_def split: if_splits)
qed

lemma set_firstName_writes:
  "set_firstName lp fd d = Inr d' \<Longrightarrow>
     (\<not> inc_firstName (includeDefaultFields lp) \<longrightarrow> firstName d' = firstName d)
     \<and> (inc_firstName (includeDefaultFields lp) \<longrightarrow>
          (\<exists>s. name_field ''First name is required and must be at least 2 characters''
            (map_of fd ''firstName'') = Inr s \<and> firstName d' = Some s))"
  by (auto simp: set_firstName_def and_then_Inr split: if_splits)

lemma set_lastName_writes:
  "set_lastName lp fd d = Inr d' \<Longrightarrow>
     (\<not> inc_lastName (includeDefaultFields lp) \<longrightarrow> lastName d' = lastName d)
     \<and> (inc_lastName (includeDefaultFields lp) \<longrightarrow>
          (\<exists>s. name_field ''Last name is required and must be at least 2 characters''
            (map_of fd ''lastName'') = Inr s \<and> lastName d' = Some s))"
  by (auto simp: set_lastName_def and_then_Inr split: if_splits)

lemma set_email_writes:
  "set_email lp fd d = Inr d' \<Longrightarrow>
     (\<not> inc_email (includeDefaultFields lp) \<longrightarrow> email d' = email d)
     \<and> (inc_email (includeDefaultFields lp) \<longrightarrow>
          (\<exists>s. email_field (map_of fd ''email'') = Inr s \<and> email d' = Some s))"
  by (auto simp: set_email_def and_then_Inr split: if_splits)

lemma set_phone_writes:
  assumes "set_phone lp fd d = Inr d'"
  shows "(js_not (map_of fd ''phone'') \<longrightarrow> phone d' = phone d)
     \<and> (\<not> js_not (map_of fd ''phone'') \<longrightarrow>
          (\<exists>s. map_of fd ''phone'' = Some (JStr s) \<and> s \<noteq> [] \<and> phone d' = Some (trim s)))"
proof -
  from assms obtain r where r: "optional_field (map_of fd ''phone'') = Inr r"
    and d': "d' = (case r of None \<Rightarrow> d | Some s \<Rightarrow> d\<lparr>phone := Some s\<rparr>)"
    unfolding set_phone_def and_then_Inr by auto
  show ?thesis
  proof (cases r)
    case None
    with r d' show ?thesis by (simp add: optional_field_None)
  next
    case (Some t)
    with r obtain s where "map_of fd ''phone'' = Some (JStr s)" "s \<noteq> []" "t = trim s"
      by (auto simp: optional_field_Some)
    with Some d' show ?thesis by (simp add: js_not_def)
  qed
qed

lemma set_company_writes:
  assumes "set_company lp fd d = Inr d'"
  shows "(\<not> inc_company (includeDefaultFields lp) \<or> js_not (map_of fd ''company'')
            \<longrightarrow> company d' = company d)
     \<and> (inc_company (includeDefaultFields lp) \<and> \<not> js_not (map_of fd ''company'') \<longrightarrow>
          (\<exists>s. map_of fd ''company'' = Some (JStr s) \<and> s \<noteq> []
               \<and> company d' = Some (trim s)))"
proof (cases "inc_company (includeDefaultFields lp)")
  case False
  with assms show ?thesis by (simp add: set_company_def)
next
  case True
  with assms obtain r where r: "optional_field (map_of fd ''company'') = Inr r"
    and d': "d' = (case r of None \<Rightarrow> d | Some s \<Rightarrow> d\<lparr>company := Some s\<rparr>)"
    by (auto simp: set_company_def and_then_Inr)
  show ?thesis
  proof (cases r)
    case None
    with r d' True show ?thesis by (simp add: optional_field_None)
  next
    case (Some t)
    with r obtain s where "map_of fd ''company'' = Some (JStr s)" "s \<noteq> []" "t = trim s"
      by (auto simp: optional_field_Some)
    with Some d' True show ?thesis by (simp add: js_not_def)
  qed
qed

lemma set_message_writes:
  assumes "set_message lp fd d = Inr d'"
  shows "(\<not> inc_message (includeDefaultFields lp) \<or> js_not (map_of fd ''message'')
            \<longrightarrow> message d' = message d)
     \<and> (inc_message (includeDefaultFields lp) \<and> \<not> js_not (map_of fd ''message'') \<longrightarrow>
          (\<exists>s. map_of fd ''message'' = Some (JStr s) \<and> s \<noteq> []
               \<and> message d' = Some (trim s)))"
proof (cases "inc_message (includeDefaultFields lp)")
  case False
  with assms show ?thesis by (simp add: set_message_def)
next
  case True
  with assms obtain r where r: "optional_field (map_of fd ''message'') = Inr r"
    and d': "d' = (case r of None \<Rightarrow> d | Some s \<Rightarrow> d\<lparr>message := Some s\<rparr>)"
    by (auto simp: set_message_def and_then_Inr)
  show ?thesis
  proof (cases r)
    case None
    with r d' True show ?thesis by (simp add: optional_field_None)
  next
    case (Some t)
    with r obtain s where "map_of fd ''message'' = Some (JStr s)" "s \<noteq> []" "t = trim s"
      by (auto simp: optional_field_Some)
    with Some d' True show ?thesis by (simp add: js_not_def)
  qed
qed


lemma process_default_fields_keeps:
  assumes "process_default_fields lp fd d0 = Inr d"
  shows "dynamicFields d = dynamicFields d0 \<and> landingPage d = landingPage d0"
proof -
  from process_default_fields_Inr [OF assms] obtain d1 d2 d3 d4 d5 where
    "set_firstName lp fd d0 = Inr d1" "set_lastName lp fd d1 = Inr d2"
    "set_email lp fd d2 = Inr d3" "set_phone lp fd d3 = Inr d4"
    "set_company lp fd d4 = Inr d5" "set_message lp fd d5 = Inr d"
    by blast
  then show ?thesis
    using set_firstName_keeps [of lp fd d0 d1] set_lastName_keeps [of lp fd d1 d2]
      set_email_keeps [of lp fd d2 d3] set_phone_keeps [of lp fd d3 d4]
      set_company_keeps [of lp fd d4 d5] set_message_keeps [of lp fd d5 d]
    by simp
qed

lemma process_default_fields_writes:
  assumes "process_default_fields lp fd d0 = Inr d"
  shows "(\<not> inc_firstName (includeDefaultFields lp) \<longrightarrow> firstName d = firstName d0)"
    and "(inc_firstName (includeDefaultFields lp) \<longrightarrow>
          (\<exists>s. name_field ''First name is required and must be at least 2 characters''
            (map_of fd ''firstName'') = Inr s \<and> firstName d = Some s))"
    and "(\<not> inc_lastName (includeDefaultFields lp) \<longrightarrow> lastName d = lastName d0)"
    and "(inc_lastName (includeDefaultFields lp) \<longrightarrow>
          (\<exists>s. name_field ''Last name is required and must be at least 2 characters''
            (map_of fd ''lastName'') = Inr s \<and> lastName d = Some s))"
    and "(\<not> inc_email (includeDefaultFields lp) \<longrightarrow> email d = email d0)"
    and "(inc_email (includeDefaultFields lp) \<longrightarrow>
          (\<exists>s. email_field (map_of fd ''email'') = Inr s \<and> email d = Some s))"
    and "(js_not (map_of fd ''phone'') \<longrightarrow> phone d = phone d0)"
    and "(\<not> js_not (map_of fd ''phone'') \<longrightarrow>
          (\<exists>s. map_of fd ''phone'' = Some (JStr s) \<and> s \<noteq> [] \<and> phone d = Some (trim s)))"
    and "(\<not> inc_company (includeDefaultFields lp) \<or> js_not (map_of fd ''company'')
            \<longrightarrow> company d = company d0)"
    and "(inc_company (includeDefaultFields lp) \<and> \<not> js_not (map_of fd ''company'') \<longrightarrow>
          (\<exists>s. map_of fd ''company'' = Some (JStr s) \<and> s \<noteq> []
               \<and> company d = Some (trim s)))"
    and "(\<not> inc_message (includeDefaultFields lp) \<or> js_not (map_of fd ''message'')
            \<longrightarrow> message d = message d0)"
    and "(inc_message (includeDefaultFields lp) \<and> \<not> js_not (map_of fd ''message'') \<longrightarrow>
          (\<exists>s. map_of fd ''message'' = Some (JStr s) \<and> s \<noteq> []
               \<and> message d = Some (trim s)))"
proof -
  from process_default_fields_Inr [OF assms] obtain d1 d2 d3 d4 d5 where
    s1: "set_firstName lp fd d0 = Inr d1" and s2: "set_lastName lp fd d1 = Inr d2" and
    s3: "set_email lp fd d2 = Inr d3" and s4: "set_phone lp fd d3 = Inr d4" and
    s5: "set_company lp fd d4 = Inr d5" and s6: "set_message lp fd d5 = Inr d"
    by blast
  note k1 = set_firstName_keeps [OF s1] and k2 = set_lastName_keeps [OF s2]
    and k3 = set_email_keeps [OF s3] and k4 = set_phone_keeps [OF s4]
    and k5 = set_company_keeps [OF s5] and k6 = set_message_keeps [OF s6]
  have fn: "firstName d = firstName d1" using k2 k3 k4 k5 k6 by simp
  have ln: "lastName d = lastName d2" "lastName d1 = lastName d0" using k1 k3 k4 k5 k6 by simp_all
  have em: "email d = email d3" "email d2 = email d0" using k1 k2 k4 k5 k6 by simp_all
  have ph: "phone d = phone d4" "phone d3 = phone d0" using k1 k2 k3 k5 k6 by simp_all
  have co: "company d = company d5" "company d4 = company d0" using k1 k2 k3 k4 k6 by simp_all
  have me: "message d5 = message d0" using k1 k2 k3 k4 k5 by simp
  show "(\<not> inc_firstName (includeDefaultFields lp) \<longrightarrow> firstName d = firstName d0)"
    and "(inc_firstName (includeDefaultFields lp) \<longrightarrow>
          (\<exists>s. name_field ''First name is required and must be at least 2 characters''
            (map_of fd ''firstName'') = Inr s \<and> firstName d = Some s))"
    using set_firstName_writes [OF s1] fn by simp_all
  show "(\<not> inc_lastName (includeDefaultFields lp) \<longrightarrow> lastName d = lastName d0)"
    and "(inc_lastName (includeDefaultFields lp) \<longrightarrow>
          (\<exists>s. name_field ''Last name is required and must be at least 2 characters''
            (map_of fd ''lastName'') = Inr s \<and> lastName d = Some s))"
    using set_lastName_writes [OF s2] ln by simp_all
  show "(\<not> inc_email (includeDefaultFields lp) \<longrightarrow> email d = email d0)"
    and "(inc_email (includeDefaultFields lp) \<longrightarrow>
          (\<exists>s. email_field (map_of fd ''email'') = Inr s \<and> email d = Some s))"
    using set_email_writes [OF s3] em by simp_all
  show "(js_not (map_of fd ''phone'') \<longrightarrow> phone d = phone d0)"
    and "(\<not> js_not (map_of fd ''phone'') \<longrightarrow>
          (\<exists>s. map_of fd ''phone'' = Some (JStr s) \<and> s \<noteq> [] \<and> phone d = Some (trim s)))"
    using set_phone_writes [OF s4] ph by simp_all
  show "(\<not> inc_company (includeDefaultFields lp) \<or> js_not (map_of fd ''company'')
            \<longrightarrow> company d = company d0)"
    and "(inc_company (includeDefaultFields lp) \<and> \<not> js_not (map_of fd ''company'') \<longrightarrow>
          (\<exists>s. map_of fd ''company'' = Some (JStr s) \<and> s \<noteq> []
               \<and> company d = Some (trim s)))"
    using set_company_writes [OF s5] co by simp_all
  show "(\<not> inc_message (includeDefaultFields lp) \<or> js_not (map_of fd ''message'')
            \<longrightarrow> message d = message d0)"
    and "(inc_message (includeDefaultFields lp) \<and> \<not> js_not (map_of fd ''message'') \<longrightarrow>
          (\<exists>s. map_of fd ''message'' = Some (JStr s) \<and> s \<noteq> []
               \<and> message d = Some (trim s)))"
    using set_message_writes [OF s6] me by simp_all
qed

lemma Lead_create_Inr:
  assumes "Lead_create now d = Inr L"
  shows "firstName L = map_option trim (firstName d)"
    and "lastName L = map_option trim (lastName d)"
    and "email L = map_option toLowerCase (email d)"
    and "phone L = map_option trim (phone d)"
    and "company L = map_option trim (company d)"
    and "message L = map_option trim (message d)"
    and "dynamicFields L = dynamicFields d"
    and "landingPage L = landingPage d"
    and "firstName d \<noteq> None" and "lastName d \<noteq> None" and "email d \<noteq> None"
    and "\<forall>k\<in>fst ` set (dynamicFields d). valid_map_key k"
proof -
  from assms have nf: "List.find (\<lambda>kv. \<not> valid_map_key (fst kv)) (dynamicFields d) = None"
    by (auto simp: Lead_create_def split: option.splits)
  then show "\<forall>k\<in>fst ` set (dynamicFields d). valid_map_key k"
    by (auto simp: find_None_iff)
  from assms nf
  show "firstName L = map_option trim (firstName d)"
    and "lastName L = map_option trim (lastName d)"
    and "email L = map_option toLowerCase (email d)"
    and "phone L = map_option trim (phone d)"
    and "company L = map_option trim (company d)"
    and "message L = map_option trim (message d)"
    and "dynamicFields L = dynamicFields d"
    and "landingPage L = landingPage d"
    and "firstName d \<noteq> None" and "lastName d \<noteq> None" and "email d \<noteq> None"
    by (auto simp: Lead_create_def Let_def missing_def split: if_splits option.splits)
qed

lemma post_leads_created:
  assumes "post_leads pgs leads now req = (Reply 201 b m (Some L), leads')"
  shows "\<exists>lp d. findById pgs (landingPageId req) = Some lp \<and> page_status lp = PageActive
           \<and> fill_leadData lp req = Inr d \<and> Lead_create now d = Inr L
           \<and> leads' = leads @ [L]"
  using assms unfolding post_leads_def
  by (auto split: option.splits if_splits sum.splits stop.splits)

lemma fill_leadData_Inr:
  assumes "fill_leadData lp req = Inr d"
  shows "\<exists>d1. process_default_fields lp (formData req) (leadData0 req) = Inr d1
           \<and> dynamic_loop (formFields lp) (formData req) [] = Inr (dynamicFields d)
           \<and> d = d1\<lparr>dynamicFields := dynamicFields d\<rparr>"
proof -
  from assms obtain d1 dyn where
    p: "process_default_fields lp (formData req) (leadData0 req) = Inr d1"
    and l: "dynamic_loop (formFields lp) (formData req) (dynamicFields d1) = Inr dyn"
    and d: "d = d1\<lparr>dynamicFields := dyn\<rparr>"
    unfolding fill_leadData_def and_then_Inr by auto
  have "dynamicFields d1 = []"
    using process_default_fields_keeps [OF p] by (simp add: leadData0_def)
  with p l d show ?thesis by auto
qed

text \<open>
  The extension map after the loop: where a stored value comes from, which keys the
  loop leaves alone, and what it stores for an entry it keeps.
\<close>

lemma dynamic_loop_origin:
  "dynamic_loop ffs fd dyn = Inr dyn' \<Longrightarrow> map_of dyn' k = Some v \<Longrightarrow>
     map_of dyn k = Some v
     \<or> (k \<notin> set standardFields
        \<and> (\<exists>x str. (k, x) \<in> set fd \<and> truthy x \<and> ToString x = Inr str
               \<and> trim str \<noteq> [] \<and> v = JStr (trim str)))"
proof (induction ffs fd dyn rule: dynamic_loop.induct)
  case (1 ffs dyn)
  then show ?case by simp
next
  case (2 ffs fieldName fieldValue rest dyn)
  show ?case
  proof (cases "fieldName \<in> set standardFields \<or> \<not> truthy fieldValue")
    case True
    with 2 show ?thesis by auto
  next
    case False
    from False "2.prems" obtain str where str: "ToString fieldValue = Inr str"
      by (cases "ToString fieldValue") auto
    show ?thesis
    proof (cases "trim str = []")
      case True
      with 2 False str show ?thesis by auto
    next
      case nb: False
      let ?dyn1 = "AList.update fieldName (JStr (trim str)) dyn"
      from "2.prems" False str nb have run: "dynamic_loop ffs rest ?dyn1 = Inr dyn'"
        by (auto split: option.splits if_splits)
      have "map_of ?dyn1 k = Some v
            \<or> (k \<notin> set standardFields
               \<and> (\<exists>x s. (k, x) \<in> set rest \<and> truthy x \<and> ToString x = Inr s
                      \<and> trim s \<noteq> [] \<and> v = JStr (trim s)))"
      proof (cases "List.find (\<lambda>field. name field = fieldName) ffs")
        case None
        from "2.IH"(3) [OF False str nb None run "2.prems"(2)] show ?thesis .
      next
        case (Some cf)
        have "\<not> (required cf \<and> (\<not> truthy fieldValue \<or> trim str = []))"
          using False nb by simp
        from "2.IH"(4) [OF False str nb Some this run "2.prems"(2)] show ?thesis .
      qed
      then show ?thesis
      proof
        assume "map_of ?dyn1 k = Some v"
        then show ?thesis using False str nb
          by (cases "k = fieldName") (auto simp: update_conv')
      next
        assume "k \<notin> set standardFields
               \<and> (\<exists>x s. (k, x) \<in> set rest \<and> truthy x \<and> ToString x = Inr s
                      \<and> trim s \<noteq> [] \<and> v = JStr (trim s))"
        then show ?thesis by auto
      qed
    qed
  qed
qed


lemma dynamic_loop_Cons_cases:
  assumes "dynamic_loop ffs ((k, x) # rest) dyn = Inr dyn'"
  obtains (skip) "k \<in> set standardFields \<or> \<not> truthy x
                    \<or> (\<exists>str. ToString x = Inr str \<and> trim str = [])"
                 "dynamic_loop ffs rest dyn = Inr dyn'"
  | (store) str where "k \<notin> set standardFields" "truthy x" "ToString x = Inr str"
                 "trim str \<noteq> []"
                 "dynamic_loop ffs rest (AList.update k (JStr (trim str)) dyn) = Inr dyn'"
proof (cases "k \<in> set standardFields \<or> \<not> truthy x")
  case True
  with assms skip show ?thesis by auto
next
  case False
  from False assms obtain str where str: "ToString x = Inr str"
    by (cases "ToString x") auto
  show ?thesis
  proof (cases "trim str = []")
    case True
    with assms False str skip show ?thesis by auto
  next
    case nb: False
    from assms False str nb
    have "dynamic_loop ffs rest (AList.update k (JStr (trim str)) dyn) = Inr dyn'"
      by (auto split: option.splits if_splits)
    with False str nb store show ?thesis by auto
  qed
qed

lemma dynamic_loop_keeps:
  "dynamic_loop ffs fd dyn = Inr dyn' \<Longrightarrow> k \<notin> fst ` set fd \<Longrightarrow> map_of dyn' k = map_of dyn k"
proof (induction fd arbitrary: dyn)
  case Nil
  then show ?case by simp
next
  case (Cons e rest)
  obtain k' x where e: "e = (k', x)" by (cases e)
  from Cons.prems(2) e have ne: "k \<noteq> k'" and nin: "k \<notin> fst ` set rest" by auto
  from Cons.prems(1) [unfolded e] show ?case
  proof (cases rule: dynamic_loop_Cons_cases)
    case skip
    from Cons.IH [OF skip(2) nin] show ?thesis .
  next
    case (store str)
    from Cons.IH [OF store(5) nin] ne show ?thesis by (simp add: update_conv')
  qed
qed

lemma dynamic_loop_grows:
  "dynamic_loop ffs fd dyn = Inr dyn' \<Longrightarrow> fst ` set dyn \<subseteq> fst ` set dyn'"
proof (induction fd arbitrary: dyn)
  case Nil
  then show ?case by simp
next
  case (Cons e rest)
  obtain k' x where e: "e = (k', x)" by (cases e)
  from Cons.prems(1) [unfolded e] show ?case
  proof (cases rule: dynamic_loop_Cons_cases)
    case skip
    from Cons.IH [OF skip(2)] show ?thesis .
  next
    case (store str)
    from Cons.IH [OF store(5)] show ?thesis by (auto simp: dom_update)
  qed
qed

lemma dynamic_loop_stores:
  "dynamic_loop ffs fd dyn = Inr dyn' \<Longrightarrow> (k, x) \<in> set fd \<Longrightarrow> k \<notin> set standardFields \<Longrightarrow>
     truthy x \<Longrightarrow> ToString x = Inr str \<Longrightarrow> trim str \<noteq> [] \<Longrightarrow> k \<in> fst ` set dyn'"
proof (induction fd arbitrary: dyn)
  case Nil
  then show ?case by simp
next
  case (Cons e rest)
  obtain k' x' where e: "e = (k', x')" by (cases e)
  from Cons.prems(1) [unfolded e] show ?case
  proof (cases rule: dynamic_loop_Cons_cases)
    case skip
    from skip(1) Cons.prems e have "(k, x) \<in> set rest" by auto
    from Cons.IH [OF skip(2) this Cons.prems(3-6)] show ?thesis .
  next
    case (store s)
    show ?thesis
    proof (cases "(k, x) \<in> set rest")
      case True
      from Cons.IH [OF store(5) True Cons.prems(3-6)] show ?thesis .
    next
      case False
      with Cons.prems(2) e have "k' = k" by auto
      then have "k \<in> fst ` set (AList.update k' (JStr (trim s)) dyn)"
        by (simp add: dom_update)
      with dynamic_loop_grows [OF store(5)] show ?thesis by blast
    qed
  qed
qed

lemma dynamic_loop_value:
  "dynamic_loop ffs fd dyn = Inr dyn' \<Longrightarrow> distinct (map fst fd) \<Longrightarrow> (k, x) \<in> set fd \<Longrightarrow>
     k \<notin> set standardFields \<Longrightarrow> truthy x \<Longrightarrow> ToString x = Inr str \<Longrightarrow> trim str \<noteq> [] \<Longrightarrow>
     map_of dyn' k = Some (JStr (trim str))"
proof (induction fd arbitrary: dyn)
  case Nil
  then show ?case by simp
next
  case (Cons e rest)
  obtain k' x' where e: "e = (k', x')" by (cases e)
  from Cons.prems(2) e have d: "distinct (map fst rest)" and nin: "k' \<notin> fst ` set rest"
    by auto
  show ?case
  proof (cases "(k, x) \<in> set rest")
    case True
    from Cons.prems(1) [unfolded e] show ?thesis
    proof (cases rule: dynamic_loop_Cons_cases)
      case skip
      from Cons.IH [OF skip(2) d True Cons.prems(4-7)] show ?thesis .
    next
      case (store s)
      from Cons.IH [OF store(5) d True Cons.prems(4-7)] show ?thesis .
    qed
  next
    case False
    with Cons.prems(3) e have same: "k' = k" "x' = x" by auto
    from Cons.prems(1) [unfolded e] show ?thesis
    proof (cases rule: dynamic_loop_Cons_cases)
      case skip
      with same Cons.prems(4-7) show ?thesis by auto
    next
      case (store s)
      with same Cons.prems(6) have s: "s = str" by simp
      from dynamic_loop_keeps [OF store(5)] nin same
      have "map_of dyn' k = map_of (AList.update k (JStr (trim s)) dyn) k" by simp
      with s show ?thesis by (simp add: update_conv')
    qed
  qed
qed

text \<open>
  Claim C1. Ingestion is to create a lead exactly when the enabled default fields pass
  their rules and every required declared field has a non-blank value; with the
  required field Budget left out it is to create nothing and to answer that Budget is
  required. On the page with the required field \<open>budget\<close>, a request that carries
  only the three default fields gets the reply 201, and the lead is stored.
\<close>

theorem post_leads_budget_omitted:
  "post_leads [(''p1'', budget_page)] [] 7 budget_request
     = (Reply 201 True ''Lead created successfully'' (Some budget_lead), [budget_lead])"
  by code_simp

text \<open>The replies to the example requests.\<close>

lemma phone_request_created:
  "post_leads [(''p1'', budget_page)] [] 7 phone_request
     = (Reply 201 True ''Lead created successfully'' (Some phone_lead), [phone_lead])"
  by code_simp

lemma skills_request_created:
  "post_leads [(''p1'', budget_page)] [] 7 skills_request
     = (Reply 201 True ''Lead created successfully'' (Some skills_lead), [skills_lead])"
  by code_simp

lemma company_request_created:
  "post_leads [(''p2'', company_page)] [] 7 company_request
     = (Reply 201 True ''Lead created successfully'' (Some company_lead), [company_lead])"
  by code_simp

text \<open>
  Claim C4, as stated: a fixed attribute is on the stored lead only if the page enabled
  it, so a phone number sent to a page with the phone field switched off is not stored.
  The page of the example has the phone field switched off, and the lead created from
  a request with a phone number carries it.
\<close>

theorem phone_stored_when_disabled:
  "\<not> inc_phone (includeDefaultFields budget_page)
   \<and> post_leads [(''p1'', budget_page)] [] 7 phone_request
       = (Reply 201 True ''Lead created successfully'' (Some phone_lead), [phone_lead])
   \<and> phone phone_lead = Some ''12345''"
  using phone_request_created by (simp add: budget_page_def phone_lead_def)

text \<open>
  Claim C4, amended: on a lead that ingestion created, each of firstName, lastName,
  email, company and message is present only if the page enabled it; phone is present
  exactly when the request carried a phone value that is not empty, whatever the page
  says about the phone field.
\<close>

theorem lead_fixed_attributes:
  assumes "findById pgs (landingPageId req) = Some lp"
    and "post_leads pgs leads now req = (Reply 201 True m (Some L), leads')"
  shows "(firstName L \<noteq> None \<longrightarrow> inc_firstName (includeDefaultFields lp))
       \<and> (lastName L \<noteq> None \<longrightarrow> inc_lastName (includeDefaultFields lp))
       \<and> (email L \<noteq> None \<longrightarrow> inc_email (includeDefaultFields lp))
       \<and> (company L \<noteq> None \<longrightarrow> inc_company (includeDefaultFields lp))
       \<and> (message L \<noteq> None \<longrightarrow> inc_message (includeDefaultFields lp))
       \<and> (phone L \<noteq> None \<longleftrightarrow> \<not> js_not (map_of (formData req) ''phone''))"
proof -
  from post_leads_created [OF assms(2)] assms(1) obtain d where
    fill: "fill_leadData lp req = Inr d" and cr: "Lead_create now d = Inr L"
    by auto
  from fill_leadData_Inr [OF fill] obtain d1 where
    p: "process_default_fields lp (formData req) (leadData0 req) = Inr d1"
    and d: "d = d1\<lparr>dynamicFields := dynamicFields d\<rparr>"
    by blast
  note w = process_default_fields_writes [OF p]
  note c = Lead_create_Inr [OF cr]
  have fixed: "firstName d = firstName d1" "lastName d = lastName d1" "email d = email d1"
    "phone d = phone d1" "company d = company d1" "message d = message d1"
    by (subst d, simp)+
  have "firstName L \<noteq> None \<longrightarrow> inc_firstName (includeDefaultFields lp)"
    using w(1) c(1) fixed(1) by (auto simp: leadData0_def)
  moreover have "lastName L \<noteq> None \<longrightarrow> inc_lastName (includeDefaultFields lp)"
    using w(3) c(2) fixed(2) by (auto simp: leadData0_def)
  moreover have "email L \<noteq> None \<longrightarrow> inc_email (includeDefaultFields lp)"
    using w(5) c(3) fixed(3) by (auto simp: leadData0_def)
  moreover have "company L \<noteq> None \<longrightarrow> inc_company (includeDefaultFields lp)"
    using w(9) c(5) fixed(5) by (auto simp: leadData0_def)
  moreover have "message L \<noteq> None \<longrightarrow> inc_message (includeDefaultFields lp)"
    using w(11) c(6) fixed(6) by (auto simp: leadData0_def)
  moreover have "phone L \<noteq> None \<longleftrightarrow> \<not> js_not (map_of (formData req) ''phone'')"
    using w(7) w(8) c(4) fixed(4) by (auto simp: leadData0_def)
  ultimately show ?thesis by blast
qed

theorem lead_fixed_attributes_witness:
  "findById [(''p1'', budget_page)] (landingPageId phone_request) = Some budget_page
   \<and> post_leads [(''p1'', budget_page)] [] 7 phone_request
       = (Reply 201 True ''Lead created successfully'' (Some phone_lead), [phone_lead])
   \<and> inc_firstName (includeDefaultFields budget_page)
   \<and> company phone_lead = None
   \<and> phone phone_lead \<noteq> None
   \<and> \<not> js_not (map_of (formData phone_request) ''phone'')"
proof -
  have h1: "findById [(''p1'', budget_page)] (landingPageId phone_request) = Some budget_page"
    by code_simp
  have h3: "firstName phone_lead \<noteq> None" "company phone_lead = None"
    "phone phone_lead \<noteq> None"
    by (simp_all add: phone_lead_def budget_lead_def)
  from lead_fixed_attributes [OF h1 phone_request_created] h1 h3 phone_request_created
  show ?thesis by simp
qed

text \<open>
  The loop skips the values that are not truthy, and stores a number in the notation of
  \<open>Number.prototype.toString\<close>.
\<close>

lemma dynamic_loop_skips_falsy:
  "dynamic_loop []
     [(''children'', JNum False 0 0), (''newsletter'', JBool False),
      (''seats'', JNum False 3 1), (''rate'', JNum True 25 0), (''big'', JNum False 1 22)] []
   = Inr [(''seats'', JStr ''3''), (''rate'', JStr ''-0.25''), (''big'', JStr ''1e+21'')]"
  by code_simp

text \<open>
  Claim C5, as stated: a value of the extension map is the submitted value as a trimmed
  string, except that an array is stored as an array. The array of the example is
  stored as one string, its elements joined by commas.
\<close>

theorem array_stored_as_string:
  "post_leads [(''p1'', budget_page)] [] 7 skills_request
       = (Reply 201 True ''Lead created successfully'' (Some skills_lead), [skills_lead])
   \<and> map_of (formData skills_request) ''technologies''
       = Some (JArr [JStr ''react'', JStr ''node''])
   \<and> map_of (dynamicFields skills_lead) ''technologies'' = Some (JStr ''react,node'')"
  using skills_request_created
  by (simp add: skills_request_def budget_request_def skills_lead_def)

text \<open>
  Claim C5, amended: on a lead that ingestion created, every value of the extension
  map is a string, the trimmed rendering of a value that the request carried under the
  same key (an array is rendered with its elements joined by commas); the key is not a
  standard field name, the value is truthy (it is not null, false, zero or the empty
  string) and its rendering is not blank. Every entry of the request whose key is not
  a standard field name, whose value is truthy and whose rendering is not blank has
  its key in the map.
\<close>

theorem dynamic_values_are_trimmed_strings:
  assumes "post_leads pgs leads now req = (Reply 201 True m (Some L), leads')"
  shows "(\<forall>k v. map_of (dynamicFields L) k = Some v \<longrightarrow>
            k \<notin> set standardFields
            \<and> (\<exists>x str. (k, x) \<in> set (formData req) \<and> truthy x \<and> ToString x = Inr str
                   \<and> trim str \<noteq> [] \<and> v = JStr (trim str)))
       \<and> (\<forall>k x str. (k, x) \<in> set (formData req) \<and> k \<notin> set standardFields \<and> truthy x
              \<and> ToString x = Inr str \<and> trim str \<noteq> []
            \<longrightarrow> k \<in> fst ` set (dynamicFields L))"
proof -
  from post_leads_created [OF assms] obtain lp d where
    fill: "fill_leadData lp req = Inr d" and cr: "Lead_create now d = Inr L"
    by auto
  from fill_leadData_Inr [OF fill] have
    loop: "dynamic_loop (formFields lp) (formData req) [] = Inr (dynamicFields d)"
    by blast
  have dyn: "dynamicFields L = dynamicFields d" using Lead_create_Inr(7) [OF cr] .
  show ?thesis
  proof (intro conjI allI impI)
    fix k v assume "map_of (dynamicFields L) k = Some v"
    with dyn have "map_of (dynamicFields d) k = Some v" by simp
    from dynamic_loop_origin [OF loop this]
    show "k \<notin> set standardFields" 
      and "\<exists>x str. (k, x) \<in> set (formData req) \<and> truthy x \<and> ToString x = Inr str
                   \<and> trim str \<noteq> [] \<and> v = JStr (trim str)"
      by simp_all
  next
    fix k x str
    assume "(k, x) \<in> set (formData req) \<and> k \<notin> set standardFields \<and> truthy x
              \<and> ToString x = Inr str \<and> trim str \<noteq> []"
    then show "k \<in> fst ` set (dynamicFields L)"
      using dynamic_loop_stores [OF loop, of k x str] dyn by simp
  qed
qed

theorem dynamic_values_are_trimmed_strings_witness:
  "post_leads [(''p2'', company_page)] [] 7 company_request
       = (Reply 201 True ''Lead created successfully'' (Some company_lead), [company_lead])
   \<and> map_of (dynamicFields company_lead) ''company'' = Some (JStr ''Acme'')
   \<and> (''company'', JStr '' Acme '') \<in> set (formData company_request)
   \<and> ''company'' \<notin> set standardFields
   \<and> truthy (JStr '' Acme '')
   \<and> ToString (JStr '' Acme '') = Inr '' Acme ''
   \<and> trim '' Acme '' = ''Acme''
   \<and> ''company'' \<in> fst ` set (dynamicFields company_lead)"
proof -
  have a: "map_of (dynamicFields company_lead) ''company'' = Some (JStr ''Acme'')"
    by (simp add: company_lead_def)
  have b: "(''company'', JStr '' Acme '') \<in> set (formData company_request)"
    by (simp add: company_request_def)
  have c: "''company'' \<notin> set standardFields" by (simp add: standardFields_def)
  have t: "trim '' Acme '' = ''Acme''" by code_simp
  from dynamic_values_are_trimmed_strings [OF company_request_created]
  have "''company'' \<in> fst ` set (dynamicFields company_lead)"
    using b c t by fastforce
  with a b c t company_request_created show ?thesis by simp
qed

text \<open>
  Claim C10. The names that the loop keeps out of the extension map are firstName,
  lastName, email, phone and landingPageId; company and message are not among them.
  So on a lead that ingestion created from a request with distinct keys, when the page
  enables the company field and the request carries a company that is not blank, the
  trimmed value is stored in the fixed attribute and again under the key company of
  the extension map; the same holds for message.
\<close>

theorem company_message_stored_twice:
  assumes "findById pgs (landingPageId req) = Some lp"
    and "post_leads pgs leads now req = (Reply 201 True m (Some L), leads')"
    and "distinct (map fst (formData req))"
  shows "set standardFields = {''firstName'', ''lastName'', ''email'', ''phone'', ''landingPageId''}
       \<and> (\<forall>c. inc_company (includeDefaultFields lp)
               \<and> map_of (formData req) ''company'' = Some (JStr c) \<and> trim c \<noteq> []
             \<longrightarrow> company L = Some (trim c)
                 \<and> map_of (dynamicFields L) ''company'' = Some (JStr (trim c)))
       \<and> (\<forall>c. inc_message (includeDefaultFields lp)
               \<and> map_of (formData req) ''message'' = Some (JStr c) \<and> trim c \<noteq> []
             \<longrightarrow> message L = Some (trim c)
                 \<and> map_of (dynamicFields L) ''message'' = Some (JStr (trim c)))"
proof -
  from post_leads_created [OF assms(2)] assms(1) obtain d where
    fill: "fill_leadData lp req = Inr d" and cr: "Lead_create now d = Inr L"
    by auto
  from fill_leadData_Inr [OF fill] obtain d1 where
    p: "process_default_fields lp (formData req) (leadData0 req) = Inr d1"
    and loop: "dynamic_loop (formFields lp) (formData req) [] = Inr (dynamicFields d)"
    and d: "d = d1\<lparr>dynamicFields := dynamicFields d\<rparr>"
    by blast
  note w = process_default_fields_writes [OF p]
  note c = Lead_create_Inr [OF cr]
  have fixed: "company d = company d1" "message d = message d1"
    by (subst d, simp)+
  have std: "set standardFields = {''firstName'', ''lastName'', ''email'', ''phone'', ''landingPageId''}"
    by (simp add: standardFields_def)
  have stored: "map_of (dynamicFields L) k = Some (JStr (trim s))"
    if "map_of (formData req) k = Some (JStr s)" "trim s \<noteq> []" "k \<notin> set standardFields"
    for k s
  proof -
    from that(1) have "(k, JStr s) \<in> set (formData req)" by (rule map_of_SomeD)
    moreover from that(2) have "truthy (JStr s)" by auto
    ultimately have "map_of (dynamicFields d) k = Some (JStr (trim s))"
      using dynamic_loop_value [OF loop assms(3), of k "JStr s" s] that by simp
    with c(7) show ?thesis by simp
  qed
  have co: "company L = Some (trim s) \<and> map_of (dynamicFields L) ''company'' = Some (JStr (trim s))"
    if "inc_company (includeDefaultFields lp)" "map_of (formData req) ''company'' = Some (JStr s)"
      "trim s \<noteq> []" for s
  proof -
    from that have "\<not> js_not (map_of (formData req) ''company'')" by (auto simp: js_not_def)
    with w(10) that have "company d1 = Some (trim s)" by auto
    with c(5) fixed have "company L = Some (trim s)" by (simp add: trim_idem)
    moreover have "map_of (dynamicFields L) ''company'' = Some (JStr (trim s))"
      using stored [OF that(2,3)] by (simp add: standardFields_def)
    ultimately show ?thesis by simp
  qed
  have me: "message L = Some (trim s) \<and> map_of (dynamicFields L) ''message'' = Some (JStr (trim s))"
    if "inc_message (includeDefaultFields lp)" "map_of (formData req) ''message'' = Some (JStr s)"
      "trim s \<noteq> []" for s
  proof -
    from that have "\<not> js_not (map_of (formData req) ''message'')" by (auto simp: js_not_def)
    with w(12) that have "message d1 = Some (trim s)" by auto
    with c(6) fixed have "message L = Some (trim s)" by (simp add: trim_idem)
    moreover have "map_of (dynamicFields L) ''message'' = Some (JStr (trim s))"
      using stored [OF that(2,3)] by (simp add: standardFields_def)
    ultimately show ?thesis by simp
  qed
  from std co me show ?thesis by blast
qed

theorem company_message_stored_twice_witness:
  "findById [(''p2'', company_page)] (landingPageId company_request) = Some company_page
   \<and> post_leads [(''p2'', company_page)] [] 7 company_request
       = (Reply 201 True ''Lead created successfully'' (Some company_lead), [company_lead])
   \<and> distinct (map fst (formData company_request))
   \<and> inc_company (includeDefaultFields company_page)
   \<and> map_of (formData company_request) ''company'' = Some (JStr '' Acme '')
   \<and> trim '' Acme '' = ''Acme''
   \<and> company company_lead = Some ''Acme''
   \<and> map_of (dynamicFields company_lead) ''company'' = Some (JStr ''Acme'')
   \<and> inc_message (includeDefaultFields company_page)
   \<and> map_of (formData company_request) ''message'' = Some (JStr ''call me'')
   \<and> trim ''call me'' = ''call me''
   \<and> message company_lead = Some ''call me''
   \<and> map_of (dynamicFields company_lead) ''message'' = Some (JStr ''call me'')"
proof -
  have h1: "findById [(''p2'', company_page)] (landingPageId company_request) = Some company_page"
    by code_simp
  have h3: "distinct (map fst (formData company_request))"
    by (simp add: company_request_def)
  have i1: "inc_company (includeDefaultFields company_page)"
    and i2: "inc_message (includeDefaultFields company_page)"
    by (simp_all add: company_page_def)
  have m1: "map_of (formData company_request) ''company'' = Some (JStr '' Acme '')"
    and m2: "map_of (formData company_request) ''message'' = Some (JStr ''call me'')"
    by (simp_all add: company_request_def)
  have t1: "trim '' Acme '' = ''Acme''" and t2: "trim ''call me'' = ''call me''"
    by code_simp+
  note inst = company_message_stored_twice [OF h1 company_request_created h3]
  from inst i1 m1 t1 have r1: "company company_lead = Some ''Acme''
      \<and> map_of (dynamicFields company_lead) ''company'' = Some (JStr ''Acme'')"
    by fastforce
  from inst i2 m2 t2 have r2: "message company_lead = Some ''call me''
      \<and> map_of (dynamicFields company_lead) ''message'' = Some (JStr ''call me'')"
    by fastforce
  from h1 company_request_created h3 i1 i2 m1 m2 t1 t2 r1 r2 show ?thesis by simp
qed

section \<open>The view allFormData\<close>

lemma fold_assign_keys:
  "fst ` set (fold assign dyn obj) = fst ` set obj \<union> (fst ` set dyn - {''__proto__''})"
proof (induction dyn arbitrary: obj)
  case Nil
  then show ?case by simp
next
  case (Cons e rest)
  have step: "fst ` set (assign e obj)
                = (if fst e = ''__proto__'' then fst ` set obj
                   else insert (fst e) (fst ` set obj))"
    by (simp add: assign_def dom_update)
  have "fst ` set (fold assign (e # rest) obj)
          = fst ` set (assign e obj) \<union> (fst ` set rest - {''__proto__''})"
    using Cons.IH [of "assign e obj"] by simp
  with step show ?case by auto
qed

lemma fold_assign_map_of:
  "distinct (map fst dyn) \<Longrightarrow>
   map_of (fold assign dyn obj) k =
     (if k \<noteq> ''__proto__'' \<and> k \<in> fst ` set dyn then map_option Some (map_of dyn k)
      else map_of obj k)"
proof (induction dyn arbitrary: obj)
  case Nil
  then show ?case by simp
next
  case (Cons e rest)
  obtain k' v where e: "e = (k', v)" by (cases e)
  from Cons.prems e have d: "distinct (map fst rest)" and nin: "k' \<notin> fst ` set rest"
    by auto
  have "map_of (fold assign (e # rest) obj) k = map_of (fold assign rest (assign e obj)) k"
    by simp
  also have "\<dots> = (if k \<noteq> ''__proto__'' \<and> k \<in> fst ` set rest
                      then map_option Some (map_of rest k) else map_of (assign e obj) k)"
    by (rule Cons.IH [OF d])
  also have "\<dots> = (if k \<noteq> ''__proto__'' \<and> k \<in> fst ` set (e # rest)
                      then map_option Some (map_of (e # rest) k) else map_of obj k)"
    using nin e by (auto simp: assign_def update_conv')
  finally show ?case .
qed

text \<open>
  Claim C2, as stated: where a key of the extension map is the name of a fixed
  attribute, the merged object shows the value of the fixed attribute. The lead of
  the example has the company Beta as its fixed attribute and Acme under the key
  company of its extension map; the merged object shows Acme.
\<close>

theorem dynamic_value_shadows_fixed:
  "company collide_lead = Some ''Beta''
   \<and> map_of (dynamicFields collide_lead) ''company'' = Some (JStr ''Acme'')
   \<and> map_of (allFormData collide_lead) ''company'' = Some (Some (JStr ''Acme''))"
  by code_simp

text \<open>
  Claim C2, amended: the keys of the merged object are the six fixed names and the
  keys of the extension map (the key \<open>__proto__\<close> apart, which an assignment does
  not add); under a key of the extension map the merged object has the value of the
  extension map, also where the key is the name of a fixed attribute, and under any
  other key it has the fixed attribute.
\<close>

theorem allFormData_merge:
  assumes "distinct (map fst (dynamicFields l))"
  shows "fst ` set (allFormData l)
           = {''firstName'', ''lastName'', ''email'', ''phone'', ''company'', ''message''}
             \<union> (fst ` set (dynamicFields l) - {''__proto__''})
       \<and> map_of (allFormData l) k =
           (if k \<noteq> ''__proto__'' \<and> k \<in> fst ` set (dynamicFields l)
            then map_option Some (map_of (dynamicFields l) k)
            else map_of (fixed_data l) k)"
proof -
  have "fst ` set (fixed_data l)
          = {''firstName'', ''lastName'', ''email'', ''phone'', ''company'', ''message''}"
    by (simp add: fixed_data_def)
  then show ?thesis
    using fold_assign_keys [of "dynamicFields l" "fixed_data l"]
      fold_assign_map_of [OF assms, of "fixed_data l" k]
    by (simp add: allFormData_def)
qed

theorem allFormData_merge_witness:
  "distinct (map fst (dynamicFields collide_lead))
   \<and> fst ` set (allFormData collide_lead)
        = {''firstName'', ''lastName'', ''email'', ''phone'', ''company'', ''message''}
   \<and> map_of (allFormData collide_lead) ''company'' = Some (Some (JStr ''Acme''))
   \<and> map_of (allFormData collide_lead) ''firstName'' = Some (Some (JStr ''Jo''))"
proof -
  have h: "distinct (map fst (dynamicFields collide_lead))"
    by (simp add: collide_lead_def company_lead_def)
  have dyn: "dynamicFields collide_lead
               = [(''company'', JStr ''Acme''), (''message'', JStr ''call me'')]"
    by (simp add: collide_lead_def company_lead_def)
  have fx: "map_of (fixed_data collide_lead) ''firstName'' = Some (Some (JStr ''Jo''))"
    by (simp add: fixed_data_def collide_lead_def company_lead_def)
  from allFormData_merge [OF h, of "''company''"] allFormData_merge [OF h, of "''firstName''"]
  show ?thesis using h fx unfolding dyn by auto
qed

section \<open>The dry run and ingestion\<close>






























section \<open>Access grants\<close>

lemma new_id_fresh: "new_id accs \<notin> aa_id ` set accs"
proof
  assume "new_id accs \<in> aa_id ` set accs"
  then have "new_id accs \<in> set (0 # map aa_id accs)" by auto
  then have "new_id accs \<le> Max (set (0 # map aa_id accs))" by (intro Max_ge) auto
  also have "\<dots> = fold max (map aa_id accs) 0" by (rule Max.set_eq_fold)
  finally show False by (simp add: new_id_def)
qed

lemma find_same_pair_unique:
  assumes "unique_pairs accs" and "a \<in> set accs" and "same_pair s p a"
  shows "List.find (same_pair s p) accs = Some a"
  using assms
proof (induction accs)
  case Nil
  then show ?case by simp
next
  case (Cons x xs)
  show ?case
  proof (cases "same_pair s p x")
    case True
    with Cons.prems have "x = a"
      by (auto simp: unique_pairs_def same_pair_def image_iff)
    with True show ?thesis by simp
  next
    case False
    with Cons show ?thesis by (auto simp: unique_pairs_def)
  qed
qed

lemma pair_count_le_1: "unique_pairs accs \<Longrightarrow> pair_count s p accs \<le> 1"
proof (induction accs)
  case Nil
  then show ?case by (simp add: pair_count_def)
next
  case (Cons x xs)
  then have ih: "pair_count s p xs \<le> 1" by (simp add: unique_pairs_def)
  show ?case
  proof (cases "same_pair s p x")
    case True
    with Cons.prems have "\<forall>y\<in>set xs. \<not> same_pair s p y"
      by (auto simp: unique_pairs_def same_pair_def image_iff)
    then have "filter (same_pair s p) xs = []" by (simp add: filter_empty_conv)
    with True show ?thesis by (simp add: pair_count_def)
  next
    case False
    with ih show ?thesis by (simp add: pair_count_def)
  qed
qed

lemma pair_count_eq_1:
  assumes "unique_pairs accs" and "a \<in> set accs" and "same_pair s p a"
  shows "pair_count s p accs = 1"
proof -
  from assms(2,3) have "a \<in> set (filter (same_pair s p) accs)" by simp
  then have "0 < pair_count s p accs"
    unfolding pair_count_def by (metis length_pos_if_in_set)
  with pair_count_le_1 [OF assms(1), of s p] show ?thesis by simp
qed

text \<open>Saving a changed copy of a stored document keeps identifiers and pairs.\<close>

lemma save_keeps:
  assumes "unique_ids accs" and "x \<in> set accs"
    and "aa_id a = aa_id x" and "subAdmin a = subAdmin x"
    and "aa_landingPage a = aa_landingPage x"
  shows "map aa_id (save a accs) = map aa_id accs"
    and "map (\<lambda>a. (subAdmin a, aa_landingPage a)) (save a accs)
           = map (\<lambda>a. (subAdmin a, aa_landingPage a)) accs"
    and "a \<in> set (save a accs)"
    and "length (save a accs) = length accs"
proof -
  from assms(1) have inj: "inj_on aa_id (set accs)"
    by (simp add: unique_ids_def distinct_map)
  have same: "y = x" if "y \<in> set accs" "aa_id y = aa_id a" for y
    using inj that assms(2,3) by (auto dest: inj_onD)
  show "map aa_id (save a accs) = map aa_id accs"
    unfolding save_def by (induction accs) auto
  show "map (\<lambda>a. (subAdmin a, aa_landingPage a)) (save a accs)
           = map (\<lambda>a. (subAdmin a, aa_landingPage a)) accs"
    unfolding save_def map_map
    by (rule map_cong [OF refl]) (use same assms(4,5) in auto)
  show "a \<in> set (save a accs)"
    unfolding save_def using assms(2,3) by (auto simp: image_iff)
  show "length (save a accs) = length accs" by (simp add: save_def)
qed

lemma save_unique:
  assumes "unique_ids accs" and "unique_pairs accs" and "x \<in> set accs"
    and "aa_id a = aa_id x" and "subAdmin a = subAdmin x"
    and "aa_landingPage a = aa_landingPage x"
  shows "unique_ids (save a accs)" and "unique_pairs (save a accs)"
  using save_keeps(1,2) [OF assms(1,3,4,5,6)] assms(1,2)
  by (simp_all add: unique_ids_def unique_pairs_def)

lemma find_in_set: "List.find P xs = Some x \<Longrightarrow> x \<in> set xs \<and> P x"
  by (auto simp: find_Some_iff)


lemma AdminAccess_create_Inr:
  assumes "AdminAccess_create accs now s p g = Inr (a, accs')"
  shows "accs' = accs @ [a]" and "aa_id a = new_id accs" and "same_pair s p a"
    and "aa_status a = Active" and "\<forall>x\<in>set accs. \<not> same_pair s p x"
  using assms
  by (auto simp: AdminAccess_create_def Let_def same_pair_def list_ex_iff split: if_splits)

lemma AdminAccess_create_unique:
  assumes "AdminAccess_create accs now s p g = Inr (a, accs')"
    and "unique_ids accs" and "unique_pairs accs"
  shows "unique_ids accs'" and "unique_pairs accs'"
proof -
  note c = AdminAccess_create_Inr [OF assms(1)]
  from c(2) new_id_fresh [of accs] have "aa_id a \<notin> aa_id ` set accs" by simp
  with assms(2) c(1) show "unique_ids accs'" by (simp add: unique_ids_def)
  from c(3,5) have "(subAdmin a, aa_landingPage a)
      \<notin> (\<lambda>a. (subAdmin a, aa_landingPage a)) ` set accs"
    by (auto simp: same_pair_def)
  with assms(3) c(1) show "unique_pairs accs'" by (simp add: unique_pairs_def)
qed

text \<open>The handler once its checks of the request, the sub admin and the page have passed.\<close>

lemma grant_access_checked:
  assumes "validation_errors req = []"
    and "List.find (\<lambda>u. user_id u = subAdminId req) (db_users db) = Some sa"
    and "role sa = SubAdmin" and "user_status sa = Approved"
    and "map_of (db_pages db) (grant_landingPageId req) = Some lp"
  shows "grant_access db now req =
     (case List.find (same_pair (subAdminId req) (grant_landingPageId req)) (db_accesses db) of
        Some existingAccess \<Rightarrow>
          if aa_status existingAccess = Active
          then (Reply 400 False ''Access already granted'' None, db)
          else (Reply 200 True ''Access reactivated successfully''
                  (Some (existingAccess\<lparr>aa_status := Active, revokedAt := None,
                                          revokedBy := None\<rparr>)),
                db\<lparr>db_accesses := save (existingAccess\<lparr>aa_status := Active,
                                         revokedAt := None, revokedBy := None\<rparr>)
                                       (db_accesses db)\<rparr>)
      | None \<Rightarrow>
          (case AdminAccess_create (db_accesses db) now (subAdminId req)
                  (grant_landingPageId req) (granter req) of
             Inl e \<Rightarrow> (Thrown e, db)
           | Inr (adminAccess, accs) \<Rightarrow>
               (Reply 201 True ''Access granted successfully'' (Some adminAccess),
                db\<lparr>db_accesses := accs\<rparr>)))"
  using assms by (simp add: grant_access_def Let_def split: option.splits)

lemma grant_access_changes:
  "snd (grant_access db now req) = db
   \<or> (\<exists>x. List.find (same_pair (subAdminId req) (grant_landingPageId req)) (db_accesses db)
               = Some x
           \<and> snd (grant_access db now req)
               = db\<lparr>db_accesses := save (x\<lparr>aa_status := Active, revokedAt := None,
                                               revokedBy := None\<rparr>) (db_accesses db)\<rparr>)
   \<or> (\<exists>a accs. AdminAccess_create (db_accesses db) now (subAdminId req)
                   (grant_landingPageId req) (granter req) = Inr (a, accs)
           \<and> snd (grant_access db now req) = db\<lparr>db_accesses := accs\<rparr>)"
  by (auto simp: grant_access_def Let_def split: option.splits sum.splits)

lemma grant_access_keeps_unique:
  assumes "unique_ids (db_accesses db)" and "unique_pairs (db_accesses db)"
  shows "unique_ids (db_accesses (snd (grant_access db now req)))"
    and "unique_pairs (db_accesses (snd (grant_access db now req)))"
proof -
  from grant_access_changes [of db now req]
  have "unique_ids (db_accesses (snd (grant_access db now req)))
        \<and> unique_pairs (db_accesses (snd (grant_access db now req)))"
  proof (elim disjE exE conjE)
    assume "snd (grant_access db now req) = db"
    with assms show ?thesis by simp
  next
    fix x
    assume f: "List.find (same_pair (subAdminId req) (grant_landingPageId req)) (db_accesses db)
                 = Some x"
      and s: "snd (grant_access db now req)
               = db\<lparr>db_accesses := save (x\<lparr>aa_status := Active, revokedAt := None,
                                               revokedBy := None\<rparr>) (db_accesses db)\<rparr>"
    from find_in_set [OF f] have "x \<in> set (db_accesses db)" by simp
    from save_unique [OF assms this, of "x\<lparr>aa_status := Active, revokedAt := None,
                                               revokedBy := None\<rparr>"] s
    show ?thesis by simp
  next
    fix a accs
    assume c: "AdminAccess_create (db_accesses db) now (subAdminId req)
                   (grant_landingPageId req) (granter req) = Inr (a, accs)"
      and s: "snd (grant_access db now req) = db\<lparr>db_accesses := accs\<rparr>"
    from AdminAccess_create_unique [OF c assms] s show ?thesis by simp
  qed
  then show "unique_ids (db_accesses (snd (grant_access db now req)))"
    and "unique_pairs (db_accesses (snd (grant_access db now req)))"
    by simp_all
qed

lemma grant_access_conflict:
  assumes "unique_pairs (db_accesses db)"
    and "validation_errors req = []"
    and "List.find (\<lambda>u. user_id u = subAdminId req) (db_users db) = Some sa"
    and "role sa = SubAdmin" and "user_status sa = Approved"
    and "map_of (db_pages db) (grant_landingPageId req) = Some lp"
    and "a \<in> set (db_accesses db)"
    and "same_pair (subAdminId req) (grant_landingPageId req) a"
    and "aa_status a = Active"
  shows "grant_access db now req = (Reply 400 False ''Access already granted'' None, db)"
  using find_same_pair_unique [OF assms(1,7,8)] assms(9)
  by (simp add: grant_access_checked [OF assms(2-6)])

lemma grant_access_reactivates:
  assumes "unique_ids (db_accesses db)" and "unique_pairs (db_accesses db)"
    and "validation_errors req = []"
    and "List.find (\<lambda>u. user_id u = subAdminId req) (db_users db) = Some sa"
    and "role sa = SubAdmin" and "user_status sa = Approved"
    and "map_of (db_pages db) (grant_landingPageId req) = Some lp"
    and "a \<in> set (db_accesses db)"
    and "same_pair (subAdminId req) (grant_landingPageId req) a"
    and "aa_status a \<noteq> Active"
  shows "grant_access db now req =
           (Reply 200 True ''Access reactivated successfully''
              (Some (a\<lparr>aa_status := Active, revokedAt := None, revokedBy := None\<rparr>)),
            db\<lparr>db_accesses := save (a\<lparr>aa_status := Active, revokedAt := None,
                                          revokedBy := None\<rparr>) (db_accesses db)\<rparr>)"
    and "pair_count (subAdminId req) (grant_landingPageId req)
           (db_accesses (snd (grant_access db now req))) = 1"
    and "length (db_accesses (snd (grant_access db now req))) = length (db_accesses db)"
proof -
  let ?a = "a\<lparr>aa_status := Active, revokedAt := None, revokedBy := None\<rparr>"
  show g: "grant_access db now req =
           (Reply 200 True ''Access reactivated successfully'' (Some ?a),
            db\<lparr>db_accesses := save ?a (db_accesses db)\<rparr>)"
    using find_same_pair_unique [OF assms(2,8,9)] assms(10)
    by (simp add: grant_access_checked [OF assms(3-7)])
  note k = save_keeps [OF assms(1,8), of ?a]
  note u = save_unique [OF assms(1,2,8), of ?a]
  from assms(9) have "same_pair (subAdminId req) (grant_landingPageId req) ?a"
    by (simp add: same_pair_def)
  from pair_count_eq_1 [OF _ _ this, of "save ?a (db_accesses db)"] u(2) k(3)
  show "pair_count (subAdminId req) (grant_landingPageId req)
           (db_accesses (snd (grant_access db now req))) = 1"
    by (simp add: g)
  from k(4) show "length (db_accesses (snd (grant_access db now req))) = length (db_accesses db)"
    by (simp add: g)
qed


lemma grant_access_success:
  assumes "grant_access db now req = (Reply c True m r, db1)"
    and "unique_ids (db_accesses db)"
  shows "validation_errors req = []"
    and "\<exists>sa. List.find (\<lambda>u. user_id u = subAdminId req) (db_users db) = Some sa
              \<and> role sa = SubAdmin \<and> user_status sa = Approved"
    and "\<exists>lp. map_of (db_pages db) (grant_landingPageId req) = Some lp"
    and "db_users db1 = db_users db" and "db_pages db1 = db_pages db"
    and "\<exists>a\<in>set (db_accesses db1).
           same_pair (subAdminId req) (grant_landingPageId req) a \<and> aa_status a = Active"
proof -
  show v: "validation_errors req = []"
    using assms(1) by (auto simp: grant_access_def split: if_splits)
  show u: "\<exists>sa. List.find (\<lambda>u. user_id u = subAdminId req) (db_users db) = Some sa
              \<and> role sa = SubAdmin \<and> user_status sa = Approved"
    using assms(1) v by (auto simp: grant_access_def split: option.splits if_splits)
  show p: "\<exists>lp. map_of (db_pages db) (grant_landingPageId req) = Some lp"
    using assms(1) v u by (auto simp: grant_access_def split: option.splits if_splits)
  from u p obtain sa lp where
    sa: "List.find (\<lambda>u. user_id u = subAdminId req) (db_users db) = Some sa"
      "role sa = SubAdmin" "user_status sa = Approved"
    and lp: "map_of (db_pages db) (grant_landingPageId req) = Some lp"
    by blast
  note g = grant_access_checked [OF v sa lp, of now]
  show "db_users db1 = db_users db" and "db_pages db1 = db_pages db"
    using assms(1) unfolding g
    by (auto split: option.splits if_splits sum.splits)
  show "\<exists>a\<in>set (db_accesses db1).
           same_pair (subAdminId req) (grant_landingPageId req) a \<and> aa_status a = Active"
  proof (cases "List.find (same_pair (subAdminId req) (grant_landingPageId req))
                  (db_accesses db)")
    case None
    with assms(1) g obtain a accs where
      c: "AdminAccess_create (db_accesses db) now (subAdminId req)
            (grant_landingPageId req) (granter req) = Inr (a, accs)"
      and d: "db1 = db\<lparr>db_accesses := accs\<rparr>"
      by (auto split: sum.splits)
    from AdminAccess_create_Inr [OF c] d show ?thesis by auto
  next
    case (Some x)
    let ?a = "x\<lparr>aa_status := Active, revokedAt := None, revokedBy := None\<rparr>"
    from Some assms(1) g have d: "db1 = db\<lparr>db_accesses := save ?a (db_accesses db)\<rparr>"
      by (auto split: if_splits)
    from find_in_set [OF Some] have x: "x \<in> set (db_accesses db)"
      "same_pair (subAdminId req) (grant_landingPageId req) x" by simp_all
    from save_keeps(3) [OF assms(2) x(1), of ?a] have "?a \<in> set (db_accesses db1)"
      by (simp add: d)
    moreover from x(2) have "same_pair (subAdminId req) (grant_landingPageId req) ?a"
      by (simp add: same_pair_def)
    ultimately show ?thesis by (intro bexI [of _ ?a]) simp_all
  qed
qed

lemma revoke_access_success:
  assumes "revoke_access db t me i = (Reply 200 True m (Some r), db1)"
  shows "\<exists>x\<in>set (db_accesses db). aa_id r = aa_id x \<and> subAdmin r = subAdmin x
            \<and> aa_landingPage r = aa_landingPage x"
    and "aa_status r = Revoked"
    and "db1 = db\<lparr>db_accesses := save r (db_accesses db)\<rparr>"
proof -
  from assms obtain x where f: "List.find (\<lambda>a. aa_id a = i) (db_accesses db) = Some x"
    and r: "r = x\<lparr>aa_status := Revoked, revokedAt := Some t, revokedBy := Some me\<rparr>"
    and d: "db1 = db\<lparr>db_accesses := save r (db_accesses db)\<rparr>"
    by (auto simp: revoke_access_def Let_def split: option.splits if_splits)
  from find_in_set [OF f] r
  show "\<exists>x\<in>set (db_accesses db). aa_id r = aa_id x \<and> subAdmin r = subAdmin x
            \<and> aa_landingPage r = aa_landingPage x"
    by (intro bexI [of _ x]) simp_all
  from r show "aa_status r = Revoked" by simp
  from d show "db1 = db\<lparr>db_accesses := save r (db_accesses db)\<rparr>" .
qed

text \<open>
  Claim C6. In a collection where identifiers and (subAdmin, landingPage) pairs are
  unique, as the storage engine and the unique index keep them: a grant leaves them
  unique, so every pair has at most one record; a grant for a pair that has an active
  record is answered with the conflict \<open>Access already granted\<close> and changes
  nothing, in particular a second grant right after a successful one; and a grant for
  the pair of a record that was just revoked sets that record back to active, clears
  its revoke data, adds no record, and leaves the pair with one record.
\<close>

theorem one_access_record_per_pair:
  assumes "unique_ids (db_accesses db)" and "unique_pairs (db_accesses db)"
  shows "unique_ids (db_accesses (snd (grant_access db now req)))
       \<and> unique_pairs (db_accesses (snd (grant_access db now req)))
       \<and> pair_count s p (db_accesses (snd (grant_access db now req))) \<le> 1
       \<and> (\<forall>a\<in>set (db_accesses db).
             validation_errors req = []
             \<and> (\<exists>sa. List.find (\<lambda>u. user_id u = subAdminId req) (db_users db) = Some sa
                      \<and> role sa = SubAdmin \<and> user_status sa = Approved)
             \<and> (\<exists>lp. map_of (db_pages db) (grant_landingPageId req) = Some lp)
             \<and> same_pair (subAdminId req) (grant_landingPageId req) a
             \<and> aa_status a = Active
           \<longrightarrow> grant_access db now req
                 = (Reply 400 False ''Access already granted'' None, db))
       \<and> (\<forall>c m r db1. grant_access db now req = (Reply c True m r, db1)
           \<longrightarrow> grant_access db1 later req
                 = (Reply 400 False ''Access already granted'' None, db1))
       \<and> (\<forall>t me i m r db1.
             revoke_access db t me i = (Reply 200 True m (Some r), db1)
             \<and> same_pair (subAdminId req) (grant_landingPageId req) r
             \<and> validation_errors req = []
             \<and> (\<exists>sa. List.find (\<lambda>u. user_id u = subAdminId req) (db_users db) = Some sa
                      \<and> role sa = SubAdmin \<and> user_status sa = Approved)
             \<and> (\<exists>lp. map_of (db_pages db) (grant_landingPageId req) = Some lp)
           \<longrightarrow> grant_access db1 later req
                 = (Reply 200 True ''Access reactivated successfully''
                      (Some (r\<lparr>aa_status := Active, revokedAt := None, revokedBy := None\<rparr>)),
                    db1\<lparr>db_accesses :=
                          save (r\<lparr>aa_status := Active, revokedAt := None, revokedBy := None\<rparr>)
                            (db_accesses db1)\<rparr>)
               \<and> pair_count (subAdminId req) (grant_landingPageId req)
                    (db_accesses (snd (grant_access db1 later req))) = 1
               \<and> length (db_accesses (snd (grant_access db1 later req)))
                    = length (db_accesses db))"
proof (intro conjI ballI allI impI)
  note k = grant_access_keeps_unique [OF assms, of now req]
  show "unique_ids (db_accesses (snd (grant_access db now req)))" by (rule k(1))
  show "unique_pairs (db_accesses (snd (grant_access db now req)))" by (rule k(2))
  show "pair_count s p (db_accesses (snd (grant_access db now req))) \<le> 1"
    by (rule pair_count_le_1 [OF k(2)])
next
  fix a
  assume "a \<in> set (db_accesses db)"
    and "validation_errors req = []
             \<and> (\<exists>sa. List.find (\<lambda>u. user_id u = subAdminId req) (db_users db) = Some sa
                      \<and> role sa = SubAdmin \<and> user_status sa = Approved)
             \<and> (\<exists>lp. map_of (db_pages db) (grant_landingPageId req) = Some lp)
             \<and> same_pair (subAdminId req) (grant_landingPageId req) a
             \<and> aa_status a = Active"
  then show "grant_access db now req = (Reply 400 False ''Access already granted'' None, db)"
    using grant_access_conflict [OF assms(2), of req _ _ a now] by blast
next
  fix c m r db1
  assume g: "grant_access db now req = (Reply c True m r, db1)"
  note s = grant_access_success [OF g assms(1)]
  from grant_access_keeps_unique(2) [OF assms, of now req] g
  have u: "unique_pairs (db_accesses db1)" by simp
  from s(2,3,6) obtain sa lp a where
    "List.find (\<lambda>u. user_id u = subAdminId req) (db_users db1) = Some sa"
    "role sa = SubAdmin" "user_status sa = Approved"
    "map_of (db_pages db1) (grant_landingPageId req) = Some lp"
    "a \<in> set (db_accesses db1)" "same_pair (subAdminId req) (grant_landingPageId req) a"
    "aa_status a = Active"
    unfolding s(4,5) by blast
  from grant_access_conflict [OF u s(1) this]
  show "grant_access db1 later req = (Reply 400 False ''Access already granted'' None, db1)" .
next
  fix t me i m r db1
  assume h: "revoke_access db t me i = (Reply 200 True m (Some r), db1)
             \<and> same_pair (subAdminId req) (grant_landingPageId req) r
             \<and> validation_errors req = []
             \<and> (\<exists>sa. List.find (\<lambda>u. user_id u = subAdminId req) (db_users db) = Some sa
                      \<and> role sa = SubAdmin \<and> user_status sa = Approved)
             \<and> (\<exists>lp. map_of (db_pages db) (grant_landingPageId req) = Some lp)"
  then have rv: "revoke_access db t me i = (Reply 200 True m (Some r), db1)" by blast
  note s = revoke_access_success [OF rv]
  from s(1) obtain x where x: "x \<in> set (db_accesses db)" "aa_id r = aa_id x"
    "subAdmin r = subAdmin x" "aa_landingPage r = aa_landingPage x" by blast
  have acc1: "db_accesses db1 = save r (db_accesses db)" and
    same: "db_users db1 = db_users db" "db_pages db1 = db_pages db"
    by (simp_all add: s(3))
  note k = save_keeps [OF assms(1) x]
  note u = save_unique [OF assms x]
  from h obtain sa lp where
    sa: "List.find (\<lambda>u. user_id u = subAdminId req) (db_users db1) = Some sa"
      "role sa = SubAdmin" "user_status sa = Approved"
    and lp: "map_of (db_pages db1) (grant_landingPageId req) = Some lp"
    unfolding same by blast
  from h have v: "validation_errors req = []"
    and sp: "same_pair (subAdminId req) (grant_landingPageId req) r" by blast+
  have r_in: "r \<in> set (db_accesses db1)" using k(3) by (simp add: acc1)
  have na: "aa_status r \<noteq> Active" using s(2) by simp
  have u1: "unique_ids (db_accesses db1)" "unique_pairs (db_accesses db1)"
    using u by (simp_all add: acc1)
  note re = grant_access_reactivates [OF u1 v sa lp r_in sp na, of later]
  show "grant_access db1 later req
                 = (Reply 200 True ''Access reactivated successfully''
                      (Some (r\<lparr>aa_status := Active, revokedAt := None, revokedBy := None\<rparr>)),
                    db1\<lparr>db_accesses :=
                          save (r\<lparr>aa_status := Active, revokedAt := None, revokedBy := None\<rparr>)
                            (db_accesses db1)\<rparr>)"
    by (rule re(1))
  show "pair_count (subAdminId req) (grant_landingPageId req)
                    (db_accesses (snd (grant_access db1 later req))) = 1"
    by (rule re(2))
  show "length (db_accesses (snd (grant_access db1 later req))) = length (db_accesses db)"
    using re(3) k(4) by (simp add: acc1)
qed

theorem one_access_record_per_pair_witness:
  "unique_ids (db_accesses grant_db) \<and> unique_pairs (db_accesses grant_db)
   \<and> grant_access grant_db 5 grant_req
       = (Reply 201 True ''Access granted successfully'' (Some access1), db_granted)
   \<and> grant_access db_granted 6 grant_req
       = (Reply 400 False ''Access already granted'' None, db_granted)
   \<and> unique_ids (db_accesses db_granted) \<and> unique_pairs (db_accesses db_granted)
   \<and> revoke_access db_granted 7 ''root'' 1
       = (Reply 200 True ''Access revoked successfully'' (Some access1_revoked), db_revoked)
   \<and> grant_access db_revoked 8 grant_req
       = (Reply 200 True ''Access reactivated successfully'' (Some access1), db_granted)
   \<and> pair_count ''u1'' ''p1'' (db_accesses (snd (grant_access db_revoked 8 grant_req))) = 1"
proof -
  have u0: "unique_ids (db_accesses grant_db)" "unique_pairs (db_accesses grant_db)"
    by (simp_all add: grant_db_def unique_ids_def unique_pairs_def)
  have g1: "grant_access grant_db 5 grant_req
       = (Reply 201 True ''Access granted successfully'' (Some access1), db_granted)"
    by code_simp
  from one_access_record_per_pair [OF u0, of 5 grant_req _ _ 6] g1
  have g2: "grant_access db_granted 6 grant_req
       = (Reply 400 False ''Access already granted'' None, db_granted)"
    by blast
  from one_access_record_per_pair [OF u0, of 5 grant_req] g1
  have u1: "unique_ids (db_accesses db_granted)" "unique_pairs (db_accesses db_granted)"
    by simp_all
  have rv: "revoke_access db_granted 7 ''root'' 1
       = (Reply 200 True ''Access revoked successfully'' (Some access1_revoked), db_revoked)"
    by code_simp
  have pre: "same_pair (subAdminId grant_req) (grant_landingPageId grant_req) access1_revoked"
    "validation_errors grant_req = []"
    "\<exists>sa. List.find (\<lambda>u. user_id u = subAdminId grant_req) (db_users db_granted) = Some sa
              \<and> role sa = SubAdmin \<and> user_status sa = Approved"
    "\<exists>lp. map_of (db_pages db_granted) (grant_landingPageId grant_req) = Some lp"
    by (simp_all add: same_pair_def grant_req_def access1_revoked_def access1_def
          db_granted_def grant_db_def)
  from one_access_record_per_pair [OF u1, of 5 grant_req _ _ 8] rv pre
  have g3: "grant_access db_revoked 8 grant_req
                 = (Reply 200 True ''Access reactivated successfully''
                      (Some (access1_revoked\<lparr>aa_status := Active, revokedAt := None,
                                              revokedBy := None\<rparr>)),
                    db_revoked\<lparr>db_accesses :=
                          save (access1_revoked\<lparr>aa_status := Active, revokedAt := None,
                                                 revokedBy := None\<rparr>)
                            (db_accesses db_revoked)\<rparr>)"
    and c: "pair_count (subAdminId grant_req) (grant_landingPageId grant_req)
                    (db_accesses (snd (grant_access db_revoked 8 grant_req))) = 1"
    by blast+
  have e1: "access1_revoked\<lparr>aa_status := Active, revokedAt := None, revokedBy := None\<rparr>
              = access1"
    by (simp add: access1_revoked_def access1_def)
  have e2: "db_revoked\<lparr>db_accesses := save access1 (db_accesses db_revoked)\<rparr> = db_granted"
    by (simp add: db_revoked_def db_granted_def save_def access1_revoked_def access1_def)
  have e3: "subAdminId grant_req = ''u1''" "grant_landingPageId grant_req = ''p1''"
    by (simp_all add: grant_req_def)
  from u0 g1 g2 u1 rv g3 c show ?thesis unfolding e1 e2 e3 by simp
qed

section \<open>The lead list\<close>

text \<open>
  Claim C7. For a sub admin with no active access record the list is to come back
  empty with total 0, whatever the filters, before the lead storage is queried. The
  handler does answer at once, with whatever filters and whatever the storage holds,
  and with no lead and the count 0; but the reply it sends there has no member
  \<open>total\<close> (and no \<open>pagination\<close>).
\<close>

theorem empty_scope_reply:
  assumes "req_role req = SubAdmin"
    and "\<forall>a\<in>set accs. subAdmin a = req_user req \<longrightarrow> aa_status a \<noteq> Active"
  shows "get_leads count_docs fetch accs req
           = Sent 200 True \<lparr>count = 0, pagination = None, total = None, data = []\<rparr>"
proof -
  from assms(2) have "filter (\<lambda>a. subAdmin a = req_user req \<and> aa_status a = Active) accs = []"
    by (auto simp: filter_empty_conv)
  with assms(1) show ?thesis by (simp add: get_leads_def)
qed

theorem empty_scope_reply_witness:
  "req_role list_req = SubAdmin
   \<and> subAdmin access1_revoked = req_user list_req
   \<and> aa_status access1_revoked \<noteq> Active
   \<and> get_leads count25 fetch_one [access1_revoked] list_req
       = Sent 200 True \<lparr>count = 0, pagination = None, total = None, data = []\<rparr>
   \<and> total \<lparr>count = 0, pagination = None, total = None, data = []\<rparr> \<noteq> Some 0"
proof -
  have a: "req_role list_req = SubAdmin" by (simp add: list_req_def)
  have b: "subAdmin access1_revoked = req_user list_req"
    "aa_status access1_revoked \<noteq> Active"
    by (simp_all add: list_req_def access1_revoked_def access1_def)
  from b have c: "\<forall>a\<in>set [access1_revoked]. subAdmin a = req_user list_req
                     \<longrightarrow> aa_status a \<noteq> Active"
    by simp
  from empty_scope_reply [OF a c, of count25 fetch_one] a b show ?thesis by simp
qed

text \<open>The reply of the handler when it does query the storage.\<close>

lemma run_query_Sent:
  assumes "run_query count_docs fetch q req = Sent c b body"
  shows "pagination body = Some (build_pagination (or_default (p_page req) 1)
                                   (or_default (p_limit req) 10) (int (count_docs q)))"
    and "total body = Some (count_docs q)"
  using assms by (auto simp: run_query_def Let_def split: sum.splits)

lemma get_leads_Sent:
  assumes "get_leads count_docs fetch accs req = Sent c b body"
    and "pagination body = Some pg" and "total body = Some N"
  shows "pg = build_pagination (or_default (p_page req) 1) (or_default (p_limit req) 10) (int N)"
proof -
  from assms obtain q where "run_query count_docs fetch q req = Sent c b body"
    by (auto simp: get_leads_def Let_def split: if_splits)
  from run_query_Sent [OF this] assms(2,3) show ?thesis by simp
qed

lemma next_iff:
  assumes "1 \<le> L"
  shows "p * L < int N \<longleftrightarrow> p < \<lceil>real N / real_of_int L\<rceil>"
proof -
  from assms have pos: "0 < real_of_int L" by simp
  have "p < \<lceil>real N / real_of_int L\<rceil> \<longleftrightarrow> real_of_int p < real N / real_of_int L"
    by (rule less_ceiling_iff)
  also have "\<dots> \<longleftrightarrow> real_of_int p * real_of_int L < real N"
    using pos by (simp add: pos_less_divide_eq)
  also have "\<dots> \<longleftrightarrow> real_of_int (p * L) < real_of_int (int N)" by simp
  also have "\<dots> \<longleftrightarrow> p * L < int N" by (rule of_int_less_iff)
  finally show ?thesis by simp
qed

text \<open>
  Claim C8. In a reply of the list that carries a pagination object, for a total of N
  matching leads and a page size L of at least 1 (the limit of the request, or 10 when
  it gives none): the request for page \<open>\<lceil>N / L\<rceil>\<close> gets no \<open>next\<close>; the
  request for page 1, or for no page, gets no \<open>prev\<close>; and the request for a page p
  of at least 1 gets \<open>next\<close>, for page p + 1, exactly when p is below
  \<open>\<lceil>N / L\<rceil>\<close>, and \<open>prev\<close>, for page p - 1, exactly when p is above 1.
\<close>

theorem pagination_contract:
  assumes "get_leads count_docs fetch accs req = Sent c b body"
    and "pagination body = Some pg" and "total body = Some N"
    and "L = or_default (p_limit req) 10" and "1 \<le> L"
  shows "(p_page req = Some \<lceil>real N / real_of_int L\<rceil> \<longrightarrow> next pg = None)
       \<and> (p_page req = Some 1 \<or> p_page req = None \<longrightarrow> prev pg = None)
       \<and> (\<forall>p. p_page req = Some p \<and> 1 \<le> p \<longrightarrow>
              next pg = (if p < \<lceil>real N / real_of_int L\<rceil> then Some (p + 1, L) else None)
              \<and> prev pg = (if 1 < p then Some (p - 1, L) else None))"
proof -
  let ?last = "\<lceil>real N / real_of_int L\<rceil>"
  note pg = get_leads_Sent [OF assms(1-3), folded assms(4)]
  have idx: "(p - 1) * L + L = p * L" for p :: int by (simp add: algebra_simps)
  have nxt: "next (build_pagination p L (int N)) = (if p < ?last then Some (p + 1, L) else None)"
    for p
    using next_iff [OF assms(5), of p N] by (simp add: build_pagination_def Let_def idx)
  have prv: "prev (build_pagination p L (int N)) = (if 1 < p then Some (p - 1, L) else None)"
    if "1 \<le> p" for p
    using that assms(5) by (auto simp: build_pagination_def Let_def zero_less_mult_iff)
  have a: "next pg = None" if "p_page req = Some ?last"
  proof (cases "?last = 0")
    case True
    with that pg nxt [of 1] show ?thesis by (simp add: or_default_def)
  next
    case False
    with that pg nxt [of ?last] show ?thesis by (simp add: or_default_def)
  qed
  have b: "prev pg = None" if "p_page req = Some 1 \<or> p_page req = None"
    using that pg prv [of 1] by (auto simp: or_default_def)
  have c: "next pg = (if p < ?last then Some (p + 1, L) else None)
           \<and> prev pg = (if 1 < p then Some (p - 1, L) else None)"
    if "p_page req = Some p \<and> 1 \<le> p" for p
  proof -
    from that have "or_default (p_page req) 1 = p" by (simp add: or_default_def)
    with pg nxt [of p] prv [of p] that show ?thesis by simp
  qed
  from a b c show ?thesis by blast
qed

theorem pagination_contract_witness:
  "get_leads count25 fetch_one [access1] list_req
     = Sent 200 True \<lparr>count = 1, pagination = Some \<lparr>next = None, prev = Some (2, 10)\<rparr>,
                       total = Some 25, data = [budget_lead]\<rparr>
   \<and> or_default (p_limit list_req) 10 = 10
   \<and> p_page list_req = Some \<lceil>real 25 / real_of_int 10\<rceil>
   \<and> next \<lparr>next = None, prev = Some (2, 10)\<rparr> = None
   \<and> prev \<lparr>next = None, prev = Some (2, 10)\<rparr> = Some (3 - 1, 10)
   \<and> get_leads count25 fetch_one [access1] (list_req\<lparr>p_page := Some 1\<rparr>)
     = Sent 200 True \<lparr>count = 1, pagination = Some \<lparr>next = Some (2, 10), prev = None\<rparr>,
                       total = Some 25, data = [budget_lead]\<rparr>
   \<and> prev \<lparr>next = Some (2, 10), prev = None\<rparr> = None
   \<and> next \<lparr>next = Some (2, 10), prev = None\<rparr> = Some (1 + 1, 10)"
proof -
  let ?pg3 = "\<lparr>next = None, prev = Some (2, 10)\<rparr> :: pagination"
  let ?pg1 = "\<lparr>next = Some (2, 10), prev = None\<rparr> :: pagination"
  let ?b3 = "\<lparr>count = 1, pagination = Some ?pg3, total = Some 25, data = [budget_lead]\<rparr>"
  let ?b1 = "\<lparr>count = 1, pagination = Some ?pg1, total = Some 25, data = [budget_lead]\<rparr>"
  have g3: "get_leads count25 fetch_one [access1] list_req = Sent 200 True ?b3"
    by code_simp
  have g1: "get_leads count25 fetch_one [access1] (list_req\<lparr>p_page := Some 1\<rparr>)
              = Sent 200 True ?b1"
    by code_simp
  have l: "10 = or_default (p_limit list_req) 10"
    "10 = or_default (p_limit (list_req\<lparr>p_page := Some 1\<rparr>)) 10"
    by (simp_all add: list_req_def or_default_def)
  have last: "\<lceil>real 25 / real_of_int 10\<rceil> = 3" by simp
  have pg: "p_page list_req = Some 3" "p_page (list_req\<lparr>p_page := Some 1\<rparr>) = Some 1"
    by (simp_all add: list_req_def)
  from pagination_contract [OF g3 _ _ l(1), of ?pg3 25] pg(1) last
  have a: "next ?pg3 = None" "prev ?pg3 = Some (3 - 1, 10)" by simp_all
  from pagination_contract [OF g1 _ _ l(2), of ?pg1 25] pg(2) last
  have b: "prev ?pg1 = None" "next ?pg1 = Some (1 + 1, 10)" by simp_all
  from g3 g1 l(1) pg(1) last a b show ?thesis by simp
qed

section \<open>Login\<close>

text \<open>
  Claim C9. When the validators pass the request: a login with an e-mail that no user
  has and a login with the e-mail of a user and a password that does not match get the
  same reply, 401 with the message \<open>Invalid credentials\<close>; and a sub admin whose
  status is not approved gets, with the right password, the reply 403 and no token.
\<close>

theorem login_failures:
  assumes "login_errors req = []"
  shows "(List.find (\<lambda>u. user_email u = login_email req) us = None
            \<longrightarrow> login matchPassword getSignedJwtToken us req
                  = Reply 401 False ''Invalid credentials'' None)
       \<and> (\<forall>u. List.find (\<lambda>u. user_email u = login_email req) us = Some u
               \<and> \<not> matchPassword u (login_password req)
            \<longrightarrow> login matchPassword getSignedJwtToken us req
                  = Reply 401 False ''Invalid credentials'' None)
       \<and> (\<forall>u. List.find (\<lambda>u. user_email u = login_email req) us = Some u
               \<and> matchPassword u (login_password req)
               \<and> role u = SubAdmin \<and> user_status u \<noteq> Approved
            \<longrightarrow> login matchPassword getSignedJwtToken us req
                  = Reply 403 False
                      ''Your account is pending approval or has been rejected'' None)"
  using assms by (simp add: login_def)

theorem login_failures_witness:
  "login_errors \<lparr>login_errors = [], login_email = ''nobody@d.com'', login_password = ''secret1''\<rparr> = []
   \<and> List.find (\<lambda>u. user_email u = ''nobody@d.com'') [pending_user] = None
   \<and> login check_password sign_token [pending_user]
        \<lparr>login_errors = [], login_email = ''nobody@d.com'', login_password = ''secret1''\<rparr>
       = Reply 401 False ''Invalid credentials'' None
   \<and> List.find (\<lambda>u. user_email u = ''pat@d.com'') [pending_user] = Some pending_user
   \<and> \<not> check_password pending_user ''wrong''
   \<and> login check_password sign_token [pending_user]
        \<lparr>login_errors = [], login_email = ''pat@d.com'', login_password = ''wrong''\<rparr>
       = Reply 401 False ''Invalid credentials'' None
   \<and> check_password pending_user ''secret1''
   \<and> role pending_user = SubAdmin
   \<and> user_status pending_user \<noteq> Approved
   \<and> login check_password sign_token [pending_user]
        \<lparr>login_errors = [], login_email = ''pat@d.com'', login_password = ''secret1''\<rparr>
       = Reply 403 False ''Your account is pending approval or has been rejected'' None"
proof -
  let ?r1 = "\<lparr>login_errors = [], login_email = ''nobody@d.com'', login_password = ''secret1''\<rparr>"
  let ?r2 = "\<lparr>login_errors = [], login_email = ''pat@d.com'', login_password = ''wrong''\<rparr>"
  let ?r3 = "\<lparr>login_errors = [], login_email = ''pat@d.com'', login_password = ''secret1''\<rparr>"
  have f1: "List.find (\<lambda>u. user_email u = login_email ?r1) [pending_user] = None"
    by (simp add: pending_user_def)
  have f2: "List.find (\<lambda>u. user_email u = login_email ?r2) [pending_user] = Some pending_user"
    "List.find (\<lambda>u. user_email u = login_email ?r3) [pending_user] = Some pending_user"
    by (simp_all add: pending_user_def)
  have p: "\<not> check_password pending_user (login_password ?r2)"
    "check_password pending_user (login_password ?r3)"
    "role pending_user = SubAdmin" "user_status pending_user \<noteq> Approved"
    by (simp_all add: pending_user_def check_password_def)
  from login_failures [of ?r1 "[pending_user]" check_password sign_token] f1
  have a: "login check_password sign_token [pending_user] ?r1
             = Reply 401 False ''Invalid credentials'' None" by simp
  from login_failures [of ?r2 "[pending_user]" check_password sign_token] f2(1) p(1)
  have b: "login check_password sign_token [pending_user] ?r2
             = Reply 401 False ''Invalid credentials'' None" by simp
  from login_failures [of ?r3 "[pending_user]" check_password sign_token] f2(2) p(2,3,4)
  have c: "login check_password sign_token [pending_user] ?r3
             = Reply 403 False ''Your account is pending approval or has been rejected'' None"
    by simp
  from f1 f2 p a b c show ?thesis by simp
qed

end
